theory Spec2Isabelle
  imports Main "HOL-Library.Word"
begin

section \<open>Strings of the source language\<close>

text \<open>
  A JavaScript string is a sequence of 16-bit code units; \<open>length\<close>, \<open>===\<close>, \<open>split\<close>,
  \<open>trim\<close> and the regular expressions of \<open>chatParser.ts\<close> (none has the \<open>u\<close> flag) all
  work on code units. Hangul syllables of the source are single code units.
\<close>

type_synonym jschar = "16 word"
type_synonym jsstring = "jschar list"

definition isWhiteSpace :: "jschar \<Rightarrow> bool" where
  \<comment> \<open>WhiteSpace and LineTerminator of ECMAScript: what \<open>trim\<close> strips and \<open>\s\<close> matches.\<close>
  "isWhiteSpace c \<longleftrightarrow>
     c = 0x09 \<or> c = 0x0A \<or> c = 0x0B \<or> c = 0x0C \<or> c = 0x0D \<or> c = 0x20 \<or> c = 0xA0 \<or>
     c = 0x1680 \<or> (0x2000 \<le> c \<and> c \<le> 0x200A) \<or> c = 0x2028 \<or> c = 0x2029 \<or>
     c = 0x202F \<or> c = 0x205F \<or> c = 0x3000 \<or> c = 0xFEFF"

definition isLineTerminator :: "jschar \<Rightarrow> bool" where
  "isLineTerminator c \<longleftrightarrow> c = 0x0A \<or> c = 0x0D \<or> c = 0x2028 \<or> c = 0x2029"

definition isDigit :: "jschar \<Rightarrow> bool" where
  "isDigit c \<longleftrightarrow> 0x30 \<le> c \<and> c \<le> 0x39"

definition trim :: "jsstring \<Rightarrow> jsstring" where
  \<comment> \<open>\<open>String.prototype.trim\<close>\<close>
  "trim s = rev (dropWhile isWhiteSpace (rev (dropWhile isWhiteSpace s)))"

fun splitLines :: "jsstring \<Rightarrow> jsstring list" where
  \<comment> \<open>\<open>txtContent.split('\n')\<close>: one more piece than there are line feeds\<close>
  "splitLines [] = [[]]"
| "splitLines (c # cs) =
     (if c = 0x0A then [] # splitLines cs
      else (case splitLines cs of [] \<Rightarrow> [[c]] | l # ls \<Rightarrow> (c # l) # ls))"

section \<open>Regular expressions\<close>

text \<open>
  The fragment of ECMAScript regular expressions that \<open>chatParser.ts\<close> uses, with the
  backtracking semantics of the language: alternatives are tried left to right, a greedy
  quantifier tries the longer match first, a lazy one the shorter, and the first way that
  lets the rest of the pattern succeed wins. The matcher is written in continuation-passing
  style: \<open>k\<close> is the rest of the pattern, called with the index reached, the remaining
  input and the captures so far; \<open>None\<close> from \<open>k\<close> makes the matcher backtrack.
\<close>

datatype cls =
    Digit    \<comment> \<open>\<open>\d\<close>\<close>
  | White    \<comment> \<open>\<open>\s\<close>\<close>
  | Dot      \<comment> \<open>\<open>.\<close> (no \<open>s\<close> flag: any code unit but a line terminator)\<close>
  | AnyUnit  \<comment> \<open>\<open>[\s\S]\<close>\<close>

fun inCls :: "cls \<Rightarrow> jschar \<Rightarrow> bool" where
  "inCls Digit c = isDigit c"
| "inCls White c = isWhiteSpace c"
| "inCls Dot c = (\<not> isLineTerminator c)"
| "inCls AnyUnit c = True"

datatype rx =
    Chr jschar        \<comment> \<open>a literal code unit\<close>
  | Cls cls           \<comment> \<open>a character class\<close>
  | Seq rx rx         \<comment> \<open>concatenation\<close>
  | Alt rx rx         \<comment> \<open>\<open>a|b\<close>\<close>
  | Opt rx            \<comment> \<open>greedy \<open>a?\<close>; \<open>\d{1,2}\<close> is \<open>\d\d?\<close>\<close>
  | Star cls          \<comment> \<open>greedy \<open>c*\<close> over a class\<close>
  | PlusLazy cls      \<comment> \<open>lazy \<open>c+?\<close> over a class\<close>
  | Grp nat rx        \<comment> \<open>capturing group with its number\<close>
  | Bol               \<comment> \<open>\<open>^\<close> (no \<open>m\<close> flag: start of input)\<close>
  | Eol               \<comment> \<open>\<open>$\<close> (no \<open>m\<close> flag: end of input)\<close>

type_synonym caps = "nat \<Rightarrow> jsstring option"

primrec starGreedy ::
  "(jschar \<Rightarrow> bool) \<Rightarrow> nat \<Rightarrow> jsstring \<Rightarrow> caps \<Rightarrow> (nat \<Rightarrow> jsstring \<Rightarrow> caps \<Rightarrow> 'r option) \<Rightarrow> 'r option"
where
  "starGreedy p i [] c k = k i [] c"
| "starGreedy p i (y # ys) c k =
     (if p y then (case starGreedy p (Suc i) ys c k of Some r \<Rightarrow> Some r | None \<Rightarrow> k i (y # ys) c)
      else k i (y # ys) c)"

primrec starLazy ::
  "(jschar \<Rightarrow> bool) \<Rightarrow> nat \<Rightarrow> jsstring \<Rightarrow> caps \<Rightarrow> (nat \<Rightarrow> jsstring \<Rightarrow> caps \<Rightarrow> 'r option) \<Rightarrow> 'r option"
where
  "starLazy p i [] c k = k i [] c"
| "starLazy p i (y # ys) c k =
     (case k i (y # ys) c of Some r \<Rightarrow> Some r
      | None \<Rightarrow> if p y then starLazy p (Suc i) ys c k else None)"

primrec rmatch ::
  "rx \<Rightarrow> nat \<Rightarrow> jsstring \<Rightarrow> caps \<Rightarrow> (nat \<Rightarrow> jsstring \<Rightarrow> caps \<Rightarrow> 'r option) \<Rightarrow> 'r option"
where
  "rmatch (Chr x) i s c k =
     (case s of [] \<Rightarrow> None | y # ys \<Rightarrow> if y = x then k (Suc i) ys c else None)"
| "rmatch (Cls p) i s c k =
     (case s of [] \<Rightarrow> None | y # ys \<Rightarrow> if inCls p y then k (Suc i) ys c else None)"
| "rmatch (Seq a b) i s c k = rmatch a i s c (\<lambda>j t d. rmatch b j t d k)"
| "rmatch (Alt a b) i s c k =
     (case rmatch a i s c k of Some r \<Rightarrow> Some r | None \<Rightarrow> rmatch b i s c k)"
| "rmatch (Opt a) i s c k =
     (case rmatch a i s c k of Some r \<Rightarrow> Some r | None \<Rightarrow> k i s c)"
| "rmatch (Star p) i s c k = starGreedy (inCls p) i s c k"
| "rmatch (PlusLazy p) i s c k =
     (case s of [] \<Rightarrow> None
      | y # ys \<Rightarrow> if inCls p y then starLazy (inCls p) (Suc i) ys c k else None)"
| "rmatch (Grp n a) i s c k = rmatch a i s c (\<lambda>j t d. k j t (d(n \<mapsto> take (j - i) s)))"
| "rmatch Bol i s c k = (if i = 0 then k i s c else None)"
| "rmatch Eol i s c k = (if s = [] then k i s c else None)"

text \<open>
  The result of \<open>str.match(re)\<close> for a regular expression without the \<open>g\<close> flag: \<open>null\<close>
  (\<open>None\<close>), or the array of the whole match (index 0) and the captures, where a group
  that took no part in the match is \<open>undefined\<close> (\<open>None\<close>). The leftmost start index
  that matches is taken.
\<close>

record rxmatch =
  whole :: jsstring
  groups :: caps

primrec execFrom :: "rx \<Rightarrow> nat \<Rightarrow> jsstring \<Rightarrow> rxmatch option" where
  "execFrom r i [] =
     rmatch r i [] (\<lambda>_. None) (\<lambda>j t d. Some \<lparr>whole = [], groups = d\<rparr>)"
| "execFrom r i (y # ys) =
     (case rmatch r i (y # ys) (\<lambda>_. None)
             (\<lambda>j t d. Some \<lparr>whole = take (j - i) (y # ys), groups = d\<rparr>) of
        Some res \<Rightarrow> Some res
      | None \<Rightarrow> execFrom r (Suc i) ys)"

definition match :: "jsstring \<Rightarrow> rx \<Rightarrow> rxmatch option" where
  "match s r = execFrom r 0 s"


subsection \<open>The patterns of \<open>chatParser.ts\<close>\<close>

text \<open>
  Code units of the literals: \<open>0xB144\<close> is the year mark, \<open>0xC6D4\<close> the month mark,
  \<open>0xC77C\<close> the day mark, \<open>0xC624 0xC804\<close> is "a.m.", \<open>0xC624 0xD6C4\<close> is "p.m.",
  \<open>0x20\<close> a space, \<open>0x2C\<close> a comma and \<open>0x3A\<close> a colon.
\<close>

definition rxDigits12 :: rx where
  \<comment> \<open>\<open>\d{1,2}\<close>\<close>
  "rxDigits12 = Seq (Cls Digit) (Opt (Cls Digit))"

definition rxDate :: rx where
  \<comment> \<open>\<open>\d{4}Y \d{1,2}M \d{1,2}D\<close> with the year, month and day marks\<close>
  "rxDate =
     Seq (Cls Digit) (Seq (Cls Digit) (Seq (Cls Digit) (Seq (Cls Digit) (Seq (Chr 0xB144)
    (Seq (Chr 0x20) (Seq rxDigits12 (Seq (Chr 0xC6D4)
    (Seq (Chr 0x20) (Seq rxDigits12 (Chr 0xC77C))))))))))"

definition rxAmPm :: rx where
  \<comment> \<open>\<open>am|pm\<close> in Korean\<close>
  "rxAmPm = Alt (Seq (Chr 0xC624) (Chr 0xC804)) (Seq (Chr 0xC624) (Chr 0xD6C4))"

definition rxTime :: rx where
  \<comment> \<open>\<open>\d{1,2}:\d{2}\<close>\<close>
  "rxTime = Seq rxDigits12 (Seq (Chr 0x3A) (Seq (Cls Digit) (Cls Digit)))"

definition rxTimestamp :: rx where
  \<comment> \<open>date, space, \<open>(?:am|pm)\<close>, space, time\<close>
  "rxTimestamp = Seq rxDate (Seq (Chr 0x20) (Seq rxAmPm (Seq (Chr 0x20) rxTime)))"

definition messageRegex :: rx where
  \<comment> \<open>\<open>/^(timestamp), (.+?) : ([\s\S]*)/\<close> (lines 28 and 135)\<close>
  "messageRegex =
     Seq Bol (Seq (Grp 1 rxTimestamp) (Seq (Chr 0x2C) (Seq (Chr 0x20)
    (Seq (Grp 2 (PlusLazy Dot)) (Seq (Chr 0x20) (Seq (Chr 0x3A) (Seq (Chr 0x20)
    (Grp 3 (Star AnyUnit)))))))))"

definition dateSeparatorRegex1 :: rx where
  \<comment> \<open>\<open>/^(timestamp)$/\<close> (line 29)\<close>
  "dateSeparatorRegex1 = Seq Bol (Seq (Grp 1 rxTimestamp) Eol)"

definition dateSeparatorRegex2 :: rx where
  \<comment> \<open>\<open>/^(date) (?:am|pm) \d{1,2}:\d{2}$/\<close> (line 136)\<close>
  "dateSeparatorRegex2 =
     Seq Bol (Seq (Grp 1 rxDate) (Seq (Chr 0x20) (Seq rxAmPm (Seq (Chr 0x20) (Seq rxTime Eol)))))"

definition datePartRegex :: rx where
  \<comment> \<open>\<open>/(date)/\<close> (line 50)\<close>
  "datePartRegex = Grp 1 rxDate"

definition messageDateRegex :: rx where
  \<comment> \<open>\<open>/^(date)/\<close> (lines 69 and 172)\<close>
  "messageDateRegex = Seq Bol (Grp 1 rxDate)"

definition dateFieldsRegex :: rx where
  \<comment> \<open>\<open>/(\d{4})Y (\d{1,2})M (\d{1,2})D/\<close> (lines 6 and 113)\<close>
  "dateFieldsRegex =
     Seq (Grp 1 (Seq (Cls Digit) (Seq (Cls Digit) (Seq (Cls Digit) (Cls Digit)))))
    (Seq (Chr 0xB144) (Seq (Chr 0x20) (Seq (Grp 2 rxDigits12) (Seq (Chr 0xC6D4)
    (Seq (Chr 0x20) (Seq (Grp 3 rxDigits12) (Chr 0xC77C)))))))"

definition displayTimeRegex :: rx where
  \<comment> \<open>\<open>/(am|pm)\s(\d{1,2}:\d{2})/\<close> (lines 16 and 123)\<close>
  "displayTimeRegex = Seq (Grp 1 rxAmPm) (Seq (Cls White) (Grp 2 rxTime))"

section \<open>Built-ins of the platform\<close>

definition toStr :: "jsstring option \<Rightarrow> jsstring" where
  \<comment> \<open>\<open>ToString\<close> of a value that is a string or \<open>undefined\<close>; the code units spell "undefined"\<close>
  "toStr v = (case v of Some s \<Rightarrow> s
                | None \<Rightarrow> [0x75, 0x6E, 0x64, 0x65, 0x66, 0x69, 0x6E, 0x65, 0x64])"

fun digitsValue :: "int \<Rightarrow> int \<Rightarrow> jsstring \<Rightarrow> int" where
  \<comment> \<open>the number written by a list of digits of the given radix, after the accumulator\<close>
  "digitsValue radix acc [] = acc"
| "digitsValue radix acc (c # cs) =
     digitsValue radix
       (acc * radix +
          (if isDigit c then uint c - 0x30
           else if 0x61 \<le> c \<and> c \<le> 0x66 then uint c - 0x61 + 10
           else uint c - 0x41 + 10)) cs"

definition isHexDigit :: "jschar \<Rightarrow> bool" where
  "isHexDigit c \<longleftrightarrow> isDigit c \<or> (0x61 \<le> c \<and> c \<le> 0x66) \<or> (0x41 \<le> c \<and> c \<le> 0x46)"

definition parseInt :: "jsstring \<Rightarrow> int option" where
  \<comment> \<open>\<open>parseInt(string)\<close> with no radix; \<open>None\<close> is \<open>NaN\<close>. Leading white space is skipped,
      a sign is read, a \<open>0x\<close> prefix selects radix 16, and the longest run of digits is the
      value. (The rounding of values beyond \<open>2^53\<close> is not modelled.)\<close>
  "parseInt inputString =
     (let s0 = dropWhile isWhiteSpace inputString;
          neg = (case s0 of c # _ \<Rightarrow> c = 0x2D | [] \<Rightarrow> False);
          s1 = (case s0 of c # r \<Rightarrow> if c = 0x2D \<or> c = 0x2B then r else s0 | [] \<Rightarrow> s0);
          hex = (case s1 of a # b # _ \<Rightarrow> a = 0x30 \<and> (b = 0x78 \<or> b = 0x58) | _ \<Rightarrow> False);
          z = (if hex then takeWhile isHexDigit (drop 2 s1) else takeWhile isDigit s1)
      in if z = [] then None
         else Some ((if neg then - 1 else 1) * digitsValue (if hex then 16 else 10) 0 z))"

definition dayFromYear :: "int \<Rightarrow> int" where
  \<comment> \<open>\<open>DayFromYear\<close> of ECMAScript: the day number of 1 January, counted from 1970\<close>
  "dayFromYear y =
     365 * (y - 1970) + (y - 1969) div 4 - (y - 1901) div 100 + (y - 1601) div 400"

definition inLeapYear :: "int \<Rightarrow> bool" where
  "inLeapYear y \<longleftrightarrow> (y mod 4 = 0 \<and> y mod 100 \<noteq> 0) \<or> y mod 400 = 0"

definition monthStart :: "int \<Rightarrow> bool \<Rightarrow> int" where
  \<comment> \<open>days before the first of month \<open>mn\<close> (0 to 11) within its year\<close>
  "monthStart mn leap =
     (if mn = 0 then 0 else if mn = 1 then 31
      else (if leap then 1 else 0) +
        (if mn = 2 then 59 else if mn = 3 then 90 else if mn = 4 then 120
         else if mn = 5 then 151 else if mn = 6 then 181 else if mn = 7 then 212
         else if mn = 8 then 243 else if mn = 9 then 273 else if mn = 10 then 304
         else 334))"

definition makeDay :: "int \<Rightarrow> int \<Rightarrow> int \<Rightarrow> int" where
  \<comment> \<open>\<open>MakeDay(year, month, date)\<close>: months and days out of range carry over\<close>
  "makeDay year month dt =
     (let ym = year + month div 12; mn = month mod 12
      in dayFromYear ym + monthStart mn (inLeapYear ym) + dt - 1)"

definition newDate :: "int option \<Rightarrow> int option \<Rightarrow> int option \<Rightarrow> int option" where
  \<comment> \<open>\<open>new Date(year, monthIndex, day)\<close> as the day number of the local date it denotes;
      \<open>None\<close> is the invalid date, whose \<open>getTime()\<close> is \<open>NaN\<close>: an argument is \<open>NaN\<close>, or the
      time is beyond the 8.64e15 ms that \<open>TimeClip\<close> admits. Years 0 to 99 are read as
      1900 to 1999. The constructor reads its arguments in local time and \<open>getDay\<close> answers
      in local time, so the day of the week is that of the calendar date and the time zone
      plays no part (the clip is taken on the local time).\<close>
  "newDate year month dt =
     (case (year, month, dt) of
        (Some y, Some m, Some d) \<Rightarrow>
          (let yr = (if 0 \<le> y \<and> y \<le> 99 then 1900 + y else y);
               day = makeDay yr m d
           in if \<bar>day * 86400000\<bar> \<le> 8640000000000000 then Some day else None)
      | _ \<Rightarrow> None)"

definition getDay :: "int \<Rightarrow> nat" where
  \<comment> \<open>\<open>WeekDay\<close>: 0 is Sunday; day 0 (1 January 1970) was a Thursday\<close>
  "getDay day = nat ((day + 4) mod 7)"

section \<open>The parser\<close>

definition KOREAN_DAYS :: "jsstring list" where
  \<comment> \<open>line 3: the weekday names, Sunday first\<close>
  "KOREAN_DAYS = [[0xC77C], [0xC6D4], [0xD654], [0xC218], [0xBAA9], [0xAE08], [0xD1A0]]"

definition formatDateWithDay :: "jsstring \<Rightarrow> jsstring" where
  \<comment> \<open>lines 5 to 13; the suffix is a space, the weekday name and the code units
      \<open>0xC694 0xC77C\<close> ("day of the week")\<close>
  "formatDateWithDay dateStr =
     (case match dateStr dateFieldsRegex of
        None \<Rightarrow> dateStr
      | Some m \<Rightarrow>
          (case newDate (parseInt (toStr (groups m 1)))
                        (map_option (\<lambda>n. n - 1) (parseInt (toStr (groups m 2))))
                        (parseInt (toStr (groups m 3))) of
             None \<Rightarrow> dateStr
           | Some day \<Rightarrow> dateStr @ [0x20] @ KOREAN_DAYS ! getDay day @ [0xC694, 0xC77C]))"

definition parseTimestampToDisplayTime :: "jsstring \<Rightarrow> jsstring" where
  \<comment> \<open>lines 15 to 18\<close>
  "parseTimestampToDisplayTime timestampString =
     (case match timestampString displayTimeRegex of
        Some m \<Rightarrow> toStr (groups m 1) @ [0x20] @ toStr (groups m 2)
      | None \<Rightarrow> [])"


subsection \<open>Items and parser state\<close>

text \<open>
  \<open>ChatItem\<close> of \<open>types.ts\<close>. The \<open>id\<close> of an item is \<open>Math.random()\<close>; no statement of
  the parser reads it, and it is left out. The first variant of \<open>parseChat\<close> (lines 20 to
  107) stores a fifth property \<open>fullTimestamp\<close> in its messages (line 95), the second
  (lines 127 to 207) does not: the field is \<open>None\<close> there.
\<close>

datatype ChatItem =
    Message (user: jsstring) (content: jsstring) (timestamp: jsstring)
            (fullTimestamp: "jsstring option") (isContinuation: bool)
  | DateSeparator (date: jsstring)
  | SystemMessage (content: jsstring)

datatype error = TypeError  \<comment> \<open>a method called on \<open>undefined\<close>\<close>

text \<open>
  What \<open>parseChat\<close> returns, and the variables of its loop. \<open>lastMessage\<close> is a reference
  to an object that is also an element of \<open>messages\<close> (line 103 changes the element through
  it); objects enter \<open>messages\<close> only by \<open>push\<close> and never move, so the reference is the
  index of the element.
\<close>

record parsed =
  messages :: "ChatItem list"
  users :: "jsstring list"

record pstate = parsed +
  lastMessage :: "nat option"
  lastDate :: "jsstring option"

record result = parsed +
  title :: jsstring

definition deletedText :: jsstring where
  \<comment> \<open>the sentinel of lines 37 and 41, thirteen code units\<close>
  "deletedText = [0xBA54, 0xC2DC, 0xC9C0, 0xAC00, 0x20, 0xC0AD, 0xC81C, 0xB418, 0xC5C8,
                  0xC2B5, 0xB2C8, 0xB2E4, 0x2E]"

definition defaultTitle :: jsstring where
  \<comment> \<open>the placeholder of line 24, seven code units\<close>
  "defaultTitle = [0xCE74, 0xCE74, 0xC624, 0xD1A1, 0x20, 0xB300, 0xD654]"

definition addUser :: "jsstring \<Rightarrow> jsstring list \<Rightarrow> jsstring list" where
  \<comment> \<open>\<open>Set.prototype.add\<close> on a set kept in insertion order\<close>
  "addUser u us = (if u \<in> set us then us else us @ [u])"

definition deref :: "ChatItem list \<Rightarrow> nat option \<Rightarrow> ChatItem option" where
  \<comment> \<open>the object behind \<open>lastMessage\<close>; \<open>None\<close> is \<open>null\<close>. The reference is only ever set to
      the index of the item just pushed, so an index beyond the list does not occur; it is
      read as \<open>null\<close>.\<close>
  "deref ms r = (case r of None \<Rightarrow> None | Some i \<Rightarrow> if i < length ms then Some (ms ! i) else None)"

definition appendToLast :: "pstate \<Rightarrow> jsstring \<Rightarrow> pstate" where
  \<comment> \<open>lines 102 to 104\<close>
  "appendToLast s line =
     (case lastMessage s of
        None \<Rightarrow> s
      | Some i \<Rightarrow>
          (case deref (messages s) (Some i) of
             Some (Message u b t f k) \<Rightarrow>
               s\<lparr>messages := (messages s)[i := Message u (b @ [0x0A] @ line) t f k]\<rparr>
           | _ \<Rightarrow> s))"

definition continues :: "pstate \<Rightarrow> jsstring \<Rightarrow> jsstring \<Rightarrow> bool" where
  \<comment> \<open>lines 84 to 87\<close>
  "continues s name ts =
     (case deref (messages s) (lastMessage s) of
        Some (Message u b t f k) \<Rightarrow> u = name \<and> t = ts
      | _ \<Rightarrow> False)"

subsection \<open>First variant (lines 20 to 107)\<close>

definition messageLine1 :: "pstate \<Rightarrow> jsstring \<Rightarrow> jsstring \<Rightarrow> jsstring \<Rightarrow> pstate" where
  \<comment> \<open>lines 69 to 101\<close>
  "messageLine1 s fullTs userName body =
     (let s1 = (case match fullTs messageDateRegex of
                  None \<Rightarrow> s
                | Some messageDateMatch \<Rightarrow>
                    (let messageDate = whole messageDateMatch
                     in if messageDate \<noteq> [] \<and> Some (formatDateWithDay messageDate) \<noteq> lastDate s
                        then s\<lparr>messages := messages s @ [DateSeparator fullTs],
                               lastDate := Some (formatDateWithDay messageDate)\<rparr>
                        else s));
          ts = parseTimestampToDisplayTime fullTs;
          newMessage = Message (trim userName) (trim body) ts (Some fullTs)
                         (continues s1 (trim userName) ts)
      in s1\<lparr>messages := messages s1 @ [newMessage],
             users := addUser (trim userName) (users s1),
             lastMessage := Some (length (messages s1))\<rparr>)"

definition step1 :: "pstate \<Rightarrow> jsstring \<Rightarrow> error + pstate" where
  \<comment> \<open>the body of the loop, lines 35 to 104\<close>
  "step1 s line =
     (if line = [] then Inr s
      else if line = deletedText then
        Inr (s\<lparr>messages := messages s @ [SystemMessage deletedText], lastMessage := None\<rparr>)
      else
        (case match line dateSeparatorRegex1 of
           Some dateMatch \<Rightarrow>
             (case groups dateMatch 1 of
                None \<Rightarrow> Inl TypeError
              | Some fullDateStr \<Rightarrow>
                  (case match fullDateStr datePartRegex of
                     None \<Rightarrow> Inr s
                   | Some datePartMatch \<Rightarrow>
                       (case groups datePartMatch 1 of
                          None \<Rightarrow> Inl TypeError
                        | Some datePart \<Rightarrow>
                            (let formattedDate = formatDateWithDay datePart
                             in if Some formattedDate \<noteq> lastDate s
                                then Inr (s\<lparr>messages := messages s @ [DateSeparator fullDateStr],
                                            lastDate := Some formattedDate,
                                            lastMessage := None\<rparr>)
                                else Inr s))))
         | None \<Rightarrow>
             (case match line messageRegex of
                Some messageMatch \<Rightarrow>
                  (case (groups messageMatch 1, groups messageMatch 2, groups messageMatch 3) of
                     (Some fullTs, Some userName, Some body) \<Rightarrow>
                       Inr (messageLine1 s fullTs userName body)
                   | _ \<Rightarrow> Inl TypeError)
              | None \<Rightarrow> Inr (appendToLast s line))))"

fun run1 :: "pstate \<Rightarrow> jsstring list \<Rightarrow> error + pstate" where
  \<comment> \<open>the loop of line 34; an exception leaves it\<close>
  "run1 s [] = Inr s"
| "run1 s (line # rest) = (case step1 s line of Inl e \<Rightarrow> Inl e | Inr s' \<Rightarrow> run1 s' rest)"

definition initial :: pstate where
  \<comment> \<open>lines 25, 26, 31 and 32\<close>
  "initial = \<lparr>messages = [], users = [], lastMessage = None, lastDate = None\<rparr>"

definition titleOf :: "jsstring list \<Rightarrow> jsstring" where
  \<comment> \<open>line 24: \<open>lines[0] || placeholder\<close>; the empty string and \<open>undefined\<close> are falsy\<close>
  "titleOf ls = (case ls of [] \<Rightarrow> defaultTitle | l # _ \<Rightarrow> if l = [] then defaultTitle else l)"

definition parseChat1 :: "jsstring \<Rightarrow> error + result" where
  "parseChat1 txtContent =
     (let ls = map trim (splitLines txtContent)
      in case run1 initial (drop 3 ls) of
           Inl e \<Rightarrow> Inl e
         | Inr s \<Rightarrow> Inr \<lparr>messages = messages s, users = users s, title = titleOf ls\<rparr>)"

subsection \<open>Second variant (lines 127 to 207)\<close>

definition messageLine2 :: "pstate \<Rightarrow> jsstring \<Rightarrow> jsstring \<Rightarrow> jsstring \<Rightarrow> pstate" where
  \<comment> \<open>lines 172 to 200\<close>
  "messageLine2 s fullTs userName body =
     (let s1 = (case match fullTs messageDateRegex of
                  None \<Rightarrow> s
                | Some messageDateMatch \<Rightarrow>
                    (let messageDate = whole messageDateMatch
                     in if messageDate \<noteq> [] \<and> Some (formatDateWithDay messageDate) \<noteq> lastDate s
                        then s\<lparr>lastDate := Some (formatDateWithDay messageDate),
                               messages := messages s @ [DateSeparator (formatDateWithDay messageDate)]\<rparr>
                        else s));
          ts = parseTimestampToDisplayTime fullTs;
          newMessage = Message (trim userName) (trim body) ts None
                         (continues s1 (trim userName) ts)
      in s1\<lparr>messages := messages s1 @ [newMessage],
             users := addUser (trim userName) (users s1),
             lastMessage := Some (length (messages s1))\<rparr>)"

definition step2 :: "pstate \<Rightarrow> jsstring \<Rightarrow> error + pstate" where
  \<comment> \<open>the body of the loop, lines 142 to 203\<close>
  "step2 s line =
     (if line = [] then Inr s
      else if line = deletedText then
        Inr (s\<lparr>messages := messages s @ [SystemMessage deletedText], lastMessage := None\<rparr>)
      else
        (case match line dateSeparatorRegex2 of
           Some dateMatch \<Rightarrow>
             (case groups dateMatch 1 of
                None \<Rightarrow> Inl TypeError
              | Some datePart \<Rightarrow>
                  (let formattedDate = formatDateWithDay datePart
                   in if Some formattedDate \<noteq> lastDate s
                      then Inr (s\<lparr>messages := messages s @ [DateSeparator formattedDate],
                                  lastDate := Some formattedDate,
                                  lastMessage := None\<rparr>)
                      else Inr s))
         | None \<Rightarrow>
             (case match line messageRegex of
                Some messageMatch \<Rightarrow>
                  (case (groups messageMatch 1, groups messageMatch 2, groups messageMatch 3) of
                     (Some fullTs, Some userName, Some body) \<Rightarrow>
                       Inr (messageLine2 s fullTs userName body)
                   | _ \<Rightarrow> Inl TypeError)
              | None \<Rightarrow> Inr (appendToLast s line))))"

fun run2 :: "pstate \<Rightarrow> jsstring list \<Rightarrow> error + pstate" where
  \<comment> \<open>the loop of line 141\<close>
  "run2 s [] = Inr s"
| "run2 s (line # rest) = (case step2 s line of Inl e \<Rightarrow> Inl e | Inr s' \<Rightarrow> run2 s' rest)"

definition parseChat2 :: "jsstring \<Rightarrow> error + result" where
  "parseChat2 txtContent =
     (let ls = map trim (splitLines txtContent)
      in case run2 initial (drop 3 ls) of
           Inl e \<Rightarrow> Inl e
         | Inr s \<Rightarrow> Inr \<lparr>messages = messages s, users = users s, title = titleOf ls\<rparr>)"

section \<open>Notions for the statements and their proofs\<close>

text \<open>
  None of the definitions of this section is part of the program. \<open>lang\<close> is the set of
  strings a pattern can consume, \<open>nextState\<close> is the loop body as a total function of the
  state and the line (both variants of the source are proved equal to it), and the rest
  names what the statements below speak about.
\<close>

subsection \<open>Patterns\<close>

primrec lang :: "rx \<Rightarrow> jsstring set" where
  \<comment> \<open>the strings a pattern can consume; an anchor consumes nothing\<close>
  "lang (Chr x) = {[x]}"
| "lang (Cls p) = {[y] | y. inCls p y}"
| "lang (Seq a b) = {u @ v | u v. u \<in> lang a \<and> v \<in> lang b}"
| "lang (Alt a b) = lang a \<union> lang b"
| "lang (Opt a) = insert [] (lang a)"
| "lang (Star p) = {w. \<forall>y\<in>set w. inCls p y}"
| "lang (PlusLazy p) = {w. w \<noteq> [] \<and> (\<forall>y\<in>set w. inCls p y)}"
| "lang (Grp n a) = lang a"
| "lang Bol = {[]}"
| "lang Eol = {[]}"

primrec anchorFree :: "rx \<Rightarrow> bool" where
  \<comment> \<open>the pattern has neither \<open>^\<close> nor \<open>$\<close>\<close>
  "anchorFree (Chr x) = True"
| "anchorFree (Cls p) = True"
| "anchorFree (Seq a b) = (anchorFree a \<and> anchorFree b)"
| "anchorFree (Alt a b) = (anchorFree a \<and> anchorFree b)"
| "anchorFree (Opt a) = anchorFree a"
| "anchorFree (Star p) = True"
| "anchorFree (PlusLazy p) = True"
| "anchorFree (Grp n a) = anchorFree a"
| "anchorFree Bol = False"
| "anchorFree Eol = False"

primrec grps :: "rx \<Rightarrow> nat set" where
  \<comment> \<open>the numbers of the capturing groups of a pattern\<close>
  "grps (Chr x) = {}"
| "grps (Cls p) = {}"
| "grps (Seq a b) = grps a \<union> grps b"
| "grps (Alt a b) = grps a \<union> grps b"
| "grps (Opt a) = grps a"
| "grps (Star p) = {}"
| "grps (PlusLazy p) = {}"
| "grps (Grp n a) = insert n (grps a)"
| "grps Bol = {}"
| "grps Eol = {}"

primrec must :: "rx \<Rightarrow> nat set" where
  \<comment> \<open>the groups that take part in every match of a pattern\<close>
  "must (Chr x) = {}"
| "must (Cls p) = {}"
| "must (Seq a b) = must a \<union> must b"
| "must (Alt a b) = must a \<inter> must b"
| "must (Opt a) = {}"
| "must (Star p) = {}"
| "must (PlusLazy p) = {}"
| "must (Grp n a) = insert n (must a)"
| "must Bol = {}"
| "must Eol = {}"

definition extends :: "rx \<Rightarrow> caps \<Rightarrow> caps \<Rightarrow> bool" where
  \<comment> \<open>how a match of \<open>r\<close> can turn the captures \<open>c\<close> into \<open>d\<close>\<close>
  "extends r c d \<longleftrightarrow>
     (\<forall>n. n \<notin> grps r \<longrightarrow> d n = c n) \<and> (\<forall>n. c n \<noteq> None \<longrightarrow> d n \<noteq> None) \<and>
     (\<forall>n\<in>must r. d n \<noteq> None)"

definition prefixFree :: "jsstring set \<Rightarrow> bool" where
  \<comment> \<open>no string has two different prefixes in \<open>L\<close>: a match of \<open>L\<close> at a position is unique\<close>
  "prefixFree L \<longleftrightarrow> (\<forall>u v x y. u \<in> L \<and> v \<in> L \<and> u @ x = v @ y \<longrightarrow> u = v)"

definition dateOf :: "jsstring \<Rightarrow> jsstring" where
  \<comment> \<open>the date text at the start of a string: \<open>match(/^(date)/)?.[0]\<close> of lines 69 and 172,
      the empty string when there is none\<close>
  "dateOf s = (case match s messageDateRegex of None \<Rightarrow> [] | Some m \<Rightarrow> whole m)"

definition rxTail :: rx where
  \<comment> \<open>what follows the date in \<open>rxTimestamp\<close>\<close>
  "rxTail = Seq (Chr 0x20) (Seq rxAmPm (Seq (Chr 0x20) rxTime))"

definition rxMessageRest :: rx where
  \<comment> \<open>what follows the first group in \<open>messageRegex\<close>\<close>
  "rxMessageRest = Seq (Chr 0x2C) (Seq (Chr 0x20) (Seq (Grp 2 (PlusLazy Dot)) (Seq (Chr 0x20)
                 (Seq (Chr 0x3A) (Seq (Chr 0x20) (Grp 3 (Star AnyUnit)))))))"

text \<open>The last continuations: the end of the pattern, after \<open>$\<close> and without it.\<close>

definition endOnly :: "jsstring \<Rightarrow> nat \<Rightarrow> jsstring \<Rightarrow> caps \<Rightarrow> rxmatch option" where
  "endOnly l = (\<lambda>j t d. if t = [] then Some \<lparr>whole = take j l, groups = d\<rparr> else None)"

definition finish :: "jsstring \<Rightarrow> nat \<Rightarrow> nat \<Rightarrow> jsstring \<Rightarrow> caps \<Rightarrow> rxmatch option" where
  "finish l i = (\<lambda>j t d. Some \<lparr>whole = take (j - i) l, groups = d\<rparr>)"

text \<open>
  The two variants differ in the payload of a date marker and in the stored full
  timestamp only; \<open>nextState\<close> takes the variant as a parameter. It is proved equal to
  \<open>step1\<close> and to \<open>step2\<close> below (\<open>step1_next\<close>, \<open>step2_next\<close>).
\<close>

datatype variant = First | Second

definition datePayload :: "variant \<Rightarrow> jsstring \<Rightarrow> jsstring" where
  "datePayload v ts = (case v of First \<Rightarrow> ts | Second \<Rightarrow> formatDateWithDay (dateOf ts))"

definition storedTimestamp :: "variant \<Rightarrow> jsstring \<Rightarrow> jsstring option" where
  "storedTimestamp v ts = (case v of First \<Rightarrow> Some ts | Second \<Rightarrow> None)"

definition withDate :: "variant \<Rightarrow> pstate \<Rightarrow> jsstring \<Rightarrow> pstate" where
  "withDate v s ts =
     (if dateOf ts \<noteq> [] \<and> Some (formatDateWithDay (dateOf ts)) \<noteq> lastDate s
      then s\<lparr>messages := messages s @ [DateSeparator (datePayload v ts)],
             lastDate := Some (formatDateWithDay (dateOf ts))\<rparr>
      else s)"

definition messageLine :: "variant \<Rightarrow> pstate \<Rightarrow> jsstring \<Rightarrow> jsstring \<Rightarrow> jsstring \<Rightarrow> pstate" where
  "messageLine v s ts u b =
     (let s1 = withDate v s ts; t = parseTimestampToDisplayTime ts
      in s1\<lparr>messages := messages s1 @
                 [Message (trim u) (trim b) t (storedTimestamp v ts) (continues s1 (trim u) t)],
             users := addUser (trim u) (users s1),
             lastMessage := Some (length (messages s1))\<rparr>)"

definition headerLine :: "variant \<Rightarrow> pstate \<Rightarrow> jsstring \<Rightarrow> pstate" where
  "headerLine v s l =
     (if Some (formatDateWithDay (dateOf l)) \<noteq> lastDate s
      then s\<lparr>messages := messages s @ [DateSeparator (datePayload v l)],
             lastDate := Some (formatDateWithDay (dateOf l)),
             lastMessage := None\<rparr>
      else s)"

definition deletedLine :: "pstate \<Rightarrow> pstate" where
  "deletedLine s = s\<lparr>messages := messages s @ [SystemMessage deletedText], lastMessage := None\<rparr>"

definition nextState :: "variant \<Rightarrow> pstate \<Rightarrow> jsstring \<Rightarrow> pstate" where
  "nextState v s l =
     (if l = [] then s
      else if l = deletedText then deletedLine s
      else if match l dateSeparatorRegex1 \<noteq> None then headerLine v s l
      else (case match l messageRegex of
              Some mm \<Rightarrow> messageLine v s (toStr (groups mm 1)) (toStr (groups mm 2)) (toStr (groups mm 3))
            | None \<Rightarrow> appendToLast s l))"

subsection \<open>Notions of the claims\<close>

definition speakers :: "ChatItem list \<Rightarrow> jsstring list" where
  \<comment> \<open>the speaker names of the messages of a list, in order\<close>
  "speakers ms = concat (map (\<lambda>it. case it of Message u b t f k \<Rightarrow> [u] | _ \<Rightarrow> []) ms)"

definition firstSeen :: "'a list \<Rightarrow> 'a list" where
  \<comment> \<open>every element once, at the place of its first occurrence\<close>
  "firstSeen xs = rev (remdups (rev xs))"

definition stamped :: "ChatItem \<Rightarrow> bool" where
  \<comment> \<open>a message with a non-empty display timestamp, or another item\<close>
  "stamped it = (case it of Message u b t f k \<Rightarrow> t \<noteq> [] | _ \<Rightarrow> True)"

definition firstLine :: "jsstring \<Rightarrow> jsstring" where
  \<comment> \<open>the input up to its first line feed\<close>
  "firstLine src = takeWhile (\<lambda>c. c \<noteq> 0x0A) src"

definition fenced :: "nat \<Rightarrow> pstate \<Rightarrow> bool" where
  \<comment> \<open>the first \<open>n\<close> items are out of reach of \<open>lastMessage\<close>\<close>
  "fenced n s \<longleftrightarrow> n \<le> length (messages s) \<and> (\<forall>i. lastMessage s = Some i \<longrightarrow> n \<le> i)"

definition dateMarkers :: "ChatItem list \<Rightarrow> jsstring list" where
  \<comment> \<open>the payloads of the date markers of a list, in order\<close>
  "dateMarkers ms = concat (map (\<lambda>it. case it of DateSeparator p \<Rightarrow> [p] | _ \<Rightarrow> []) ms)"

definition datesTracked :: "pstate \<Rightarrow> bool" where
  \<comment> \<open>adjacent date markers differ in date text, and \<open>lastDate\<close> is the formatted date of
      the last one\<close>
  "datesTracked s \<longleftrightarrow>
     distinct_adj (map dateOf (dateMarkers (messages s))) \<and>
     (dateMarkers (messages s) = [] \<or>
      lastDate s = Some (formatDateWithDay (dateOf (last (dateMarkers (messages s))))))"

fun secondForm :: "ChatItem \<Rightarrow> ChatItem" where
  \<comment> \<open>an item of the first variant as the second variant emits it\<close>
  "secondForm (Message u b t f k) = Message u b t None k"
| "secondForm (DateSeparator p) = DateSeparator (formatDateWithDay (dateOf p))"
| "secondForm (SystemMessage c) = SystemMessage c"

fun agree :: "ChatItem \<Rightarrow> ChatItem \<Rightarrow> bool" where
  \<comment> \<open>same kind of item; messages with the same speaker, body, display timestamp and flag;
      notices with the same content; a date marker of the first variant against the
      weekday-annotated date of its date text\<close>
  "agree (Message u b t f k) (Message u' b' t' f' k') = (u = u' \<and> b = b' \<and> t = t' \<and> k = k')"
| "agree (DateSeparator p) (DateSeparator q) = (q = formatDateWithDay (dateOf p))"
| "agree (SystemMessage c) (SystemMessage c') = (c = c')"
| "agree _ _ = False"

definition sameButDatePayload :: "ChatItem \<Rightarrow> ChatItem \<Rightarrow> bool" where
  \<comment> \<open>two items that differ in nothing, or are date markers\<close>
  "sameButDatePayload x y =
     (case (x, y) of (DateSeparator p, DateSeparator q) \<Rightarrow> True | _ \<Rightarrow> x = y)"

text \<open>The year, month and day that lines 8 and 9 read from a date string.\<close>

definition dateNumbers :: "jsstring \<Rightarrow> (int option \<times> int option \<times> int option) option" where
  "dateNumbers s =
     (case match s dateFieldsRegex of
        None \<Rightarrow> None
      | Some m \<Rightarrow> Some (parseInt (toStr (groups m 1)), parseInt (toStr (groups m 2)),
                         parseInt (toStr (groups m 3))))"

definition conv :: "pstate \<Rightarrow> pstate" where
  \<comment> \<open>a state of the first variant as the second variant has it\<close>
  "conv s = s\<lparr>messages := map secondForm (messages s)\<rparr>"

section \<open>Lemmas\<close>

subsection \<open>The matcher is sound and complete for the language of a pattern\<close>

lemma starGreedy_inv:
  "starGreedy p i s c k = Some res \<Longrightarrow>
   \<exists>w t. s = w @ t \<and> (\<forall>y\<in>set w. p y) \<and> k (i + length w) t c = Some res"
proof (induction s arbitrary: i)
  case Nil
  then show ?case by simp
next
  case (Cons y ys)
  show ?case
  proof (cases "p y \<and> starGreedy p (Suc i) ys c k = Some res")
    case True
    then obtain w t where "ys = w @ t" "\<forall>y\<in>set w. p y" "k (Suc i + length w) t c = Some res"
      using Cons.IH by blast
    then have "y # ys = (y # w) @ t \<and> (\<forall>z\<in>set (y # w). p z) \<and> k (i + length (y # w)) t c = Some res"
      using True by simp
    then show ?thesis by blast
  next
    case False
    then have "k i (y # ys) c = Some res"
      using Cons.prems by (auto split: if_splits option.splits)
    then have "y # ys = [] @ (y # ys) \<and> (\<forall>z\<in>set []. p z) \<and> k (i + length ([]::jsstring)) (y # ys) c = Some res"
      by simp
    then show ?thesis by blast
  qed
qed

lemma starLazy_inv:
  "starLazy p i s c k = Some res \<Longrightarrow>
   \<exists>w t. s = w @ t \<and> (\<forall>y\<in>set w. p y) \<and> k (i + length w) t c = Some res"
proof (induction s arbitrary: i)
  case Nil
  then show ?case by simp
next
  case (Cons y ys)
  show ?case
  proof (cases "k i (y # ys) c")
    case (Some r)
    then have "k i (y # ys) c = Some res" using Cons.prems by simp
    then have "y # ys = [] @ (y # ys) \<and> (\<forall>z\<in>set []. p z) \<and> k (i + length ([]::jsstring)) (y # ys) c = Some res"
      by simp
    then show ?thesis by blast
  next
    case None
    then have py: "p y" and rest: "starLazy p (Suc i) ys c k = Some res"
      using Cons.prems by (auto split: if_splits)
    then obtain w t where "ys = w @ t" "\<forall>y\<in>set w. p y" "k (Suc i + length w) t c = Some res"
      using Cons.IH by blast
    then have "y # ys = (y # w) @ t \<and> (\<forall>z\<in>set (y # w). p z) \<and> k (i + length (y # w)) t c = Some res"
      using py by simp
    then show ?thesis by blast
  qed
qed

lemma starGreedy_complete:
  "\<forall>y\<in>set w. p y \<Longrightarrow> k (i + length w) t c \<noteq> None \<Longrightarrow> starGreedy p i (w @ t) c k \<noteq> None"
proof (induction w arbitrary: i)
  case Nil
  then show ?case by (cases t) (auto split: option.splits)
next
  case (Cons x w)
  then have "starGreedy p (Suc i) (w @ t) c k \<noteq> None" by simp
  then show ?case using Cons.prems by (auto split: option.splits)
qed

lemma starLazy_complete:
  "\<forall>y\<in>set w. p y \<Longrightarrow> k (i + length w) t c \<noteq> None \<Longrightarrow> starLazy p i (w @ t) c k \<noteq> None"
proof (induction w arbitrary: i)
  case Nil
  then show ?case by (cases t) (auto split: option.splits)
next
  case (Cons x w)
  then have "starLazy p (Suc i) (w @ t) c k \<noteq> None" by simp
  then show ?case using Cons.prems by (auto split: option.splits)
qed

lemma rmatch_complete:
  "anchorFree r \<Longrightarrow> w \<in> lang r \<Longrightarrow> (\<forall>d. k (i + length w) t d \<noteq> None) \<Longrightarrow>
   rmatch r i (w @ t) c k \<noteq> None"
proof (induction r arbitrary: i w t c k)
  case (Seq a b)
  from Seq.prems obtain u v where w: "w = u @ v" "u \<in> lang a" "v \<in> lang b" by auto
  have "\<forall>d. rmatch b (i + length u) (v @ t) d k \<noteq> None"
    using Seq.IH(2)[of v k "i + length u" t] Seq.prems w by (simp add: add.assoc)
  then have "rmatch a i (u @ (v @ t)) c (\<lambda>j t d. rmatch b j t d k) \<noteq> None"
    using Seq.IH(1)[of u "\<lambda>j t d. rmatch b j t d k" i "v @ t" c] Seq.prems w by simp
  then show ?case using w by simp
next
  case (Alt a b)
  show ?case
  proof (cases "w \<in> lang a")
    case True
    then have "rmatch a i (w @ t) c k \<noteq> None" using Alt.IH(1) Alt.prems by simp
    then show ?thesis by (auto split: option.splits)
  next
    case False
    then have "rmatch b i (w @ t) c k \<noteq> None" using Alt.IH(2) Alt.prems by simp
    then show ?thesis by (auto split: option.splits)
  qed
next
  case (Opt a)
  show ?case
  proof (cases "w \<in> lang a")
    case True
    then have "rmatch a i (w @ t) c k \<noteq> None" using Opt.IH Opt.prems by simp
    then show ?thesis by (auto split: option.splits)
  next
    case False
    then have "w = []" using Opt.prems by simp
    then show ?thesis using Opt.prems by (auto split: option.splits)
  qed
next
  case (Star p)
  then show ?case using starGreedy_complete[of w "inCls p" k i t c] by simp
next
  case (PlusLazy p)
  then obtain y ys where w: "w = y # ys" by (cases w) auto
  then show ?case using PlusLazy starLazy_complete[of ys "inCls p" k "Suc i" t c] by simp
next
  case (Grp n a)
  then show ?case by simp
qed auto

lemma extends_refl: "must r = {} \<Longrightarrow> extends r c c"
  by (simp add: extends_def)

lemma extends_Seq: "extends a c d \<Longrightarrow> extends b d e \<Longrightarrow> extends (Seq a b) c e"
  by (auto simp: extends_def)

lemma extends_Alt1: "extends a c d \<Longrightarrow> extends (Alt a b) c d"
  by (auto simp: extends_def)

lemma extends_Alt2: "extends b c d \<Longrightarrow> extends (Alt a b) c d"
  by (auto simp: extends_def)

lemma extends_Opt: "extends a c d \<Longrightarrow> extends (Opt a) c d"
  by (auto simp: extends_def)

lemma extends_Grp: "extends a c d \<Longrightarrow> extends (Grp n a) c (d(n \<mapsto> w))"
  by (auto simp: extends_def)

lemma rmatch_caps:
  "rmatch r i s c k = Some res \<Longrightarrow>
   \<exists>w t d. s = w @ t \<and> w \<in> lang r \<and> extends r c d \<and> k (i + length w) t d = Some res"
proof (induction r arbitrary: i s c k)
  case (Chr x)
  then obtain ys where "s = x # ys" "k (Suc i) ys c = Some res"
    by (cases s) (auto split: if_splits)
  then have "s = [x] @ ys \<and> [x] \<in> lang (Chr x) \<and> extends (Chr x) c c \<and> k (i + length [x]) ys c = Some res"
    by (simp add: extends_refl)
  then show ?case by blast
next
  case (Cls p)
  then obtain y ys where "s = y # ys" "inCls p y" "k (Suc i) ys c = Some res"
    by (cases s) (auto split: if_splits)
  then have "s = [y] @ ys \<and> [y] \<in> lang (Cls p) \<and> extends (Cls p) c c \<and> k (i + length [y]) ys c = Some res"
    by (simp add: extends_refl)
  then show ?case by blast
next
  case (Seq a b)
  from Seq.prems have "rmatch a i s c (\<lambda>j t d. rmatch b j t d k) = Some res" by simp
  then obtain w t d where 1: "s = w @ t" "w \<in> lang a" "extends a c d"
    "rmatch b (i + length w) t d k = Some res"
    using Seq.IH(1) by blast
  then obtain w' t' d' where 2: "t = w' @ t'" "w' \<in> lang b" "extends b d d'"
    "k (i + length w + length w') t' d' = Some res"
    using Seq.IH(2) by blast
  have "s = (w @ w') @ t' \<and> w @ w' \<in> lang (Seq a b) \<and> extends (Seq a b) c d' \<and>
        k (i + length (w @ w')) t' d' = Some res"
    using 1 2 extends_Seq[of a c d b d'] by (auto simp: add.assoc)
  then show ?case by blast
next
  case (Alt a b)
  show ?case
  proof (cases "rmatch a i s c k")
    case None
    then have "rmatch b i s c k = Some res" using Alt.prems by simp
    from Alt.IH(2)[OF this] show ?thesis using extends_Alt2 by fastforce
  next
    case (Some r)
    then have "rmatch a i s c k = Some res" using Alt.prems by simp
    from Alt.IH(1)[OF this] show ?thesis using extends_Alt1 by fastforce
  qed
next
  case (Opt a)
  show ?case
  proof (cases "rmatch a i s c k")
    case None
    then have "k i s c = Some res" using Opt.prems by simp
    then have "s = [] @ s \<and> [] \<in> lang (Opt a) \<and> extends (Opt a) c c \<and>
               k (i + length ([]::jsstring)) s c = Some res"
      by (simp add: extends_refl)
    then show ?thesis by blast
  next
    case (Some r)
    then have "rmatch a i s c k = Some res" using Opt.prems by simp
    from Opt.IH[OF this] show ?thesis using extends_Opt by fastforce
  qed
next
  case (Star p)
  then have "starGreedy (inCls p) i s c k = Some res" by simp
  from starGreedy_inv[OF this] obtain w t where
    "s = w @ t" "\<forall>y\<in>set w. inCls p y" "k (i + length w) t c = Some res" by blast
  then have "s = w @ t \<and> w \<in> lang (Star p) \<and> extends (Star p) c c \<and> k (i + length w) t c = Some res"
    by (simp add: extends_refl)
  then show ?case by blast
next
  case (PlusLazy p)
  then obtain y ys where s: "s = y # ys" and py: "inCls p y"
    and r: "starLazy (inCls p) (Suc i) ys c k = Some res"
    by (cases s) (auto split: if_splits)
  from starLazy_inv[OF r] obtain w t where "ys = w @ t" "\<forall>y\<in>set w. inCls p y"
    "k (Suc i + length w) t c = Some res" by blast
  then have "s = (y # w) @ t \<and> y # w \<in> lang (PlusLazy p) \<and> extends (PlusLazy p) c c \<and>
             k (i + length (y # w)) t c = Some res"
    using s py by (simp add: extends_refl)
  then show ?case by blast
next
  case (Grp n a)
  from Grp.prems have "rmatch a i s c (\<lambda>j t d. k j t (d(n \<mapsto> take (j - i) s))) = Some res" by simp
  from Grp.IH[OF this] obtain w t d where
    "s = w @ t" "w \<in> lang a" "extends a c d" "k (i + length w) t (d(n \<mapsto> take (i + length w - i) s)) = Some res"
    by blast
  then have "s = w @ t \<and> w \<in> lang (Grp n a) \<and> extends (Grp n a) c (d(n \<mapsto> w)) \<and>
             k (i + length w) t (d(n \<mapsto> w)) = Some res"
    using extends_Grp[of a c d n w] by simp
  then show ?case by blast
next
  case Bol
  then have "k i s c = Some res" by (simp split: if_splits)
  then have "s = [] @ s \<and> [] \<in> lang Bol \<and> extends Bol c c \<and> k (i + length ([]::jsstring)) s c = Some res"
    by (simp add: extends_refl)
  then show ?case by blast
next
  case Eol
  then have "k i s c = Some res" by (simp split: if_splits)
  then have "s = [] @ s \<and> [] \<in> lang Eol \<and> extends Eol c c \<and> k (i + length ([]::jsstring)) s c = Some res"
    by (simp add: extends_refl)
  then show ?case by blast
qed

subsection \<open>The date pattern matches in one way only\<close>

lemma prefixFree_Chr: "prefixFree (lang (Chr x))"
  by (simp add: prefixFree_def)

lemma prefixFree_Cls: "prefixFree (lang (Cls p))"
  by (auto simp: prefixFree_def)

lemma prefixFree_Seq:
  assumes "prefixFree (lang a)" "prefixFree (lang b)"
  shows "prefixFree (lang (Seq a b))"
  unfolding prefixFree_def
proof (intro allI impI)
  fix u v x y
  assume h: "u \<in> lang (Seq a b) \<and> v \<in> lang (Seq a b) \<and> u @ x = v @ y"
  then obtain u1 u2 v1 v2 where d: "u = u1 @ u2" "u1 \<in> lang a" "u2 \<in> lang b"
    "v = v1 @ v2" "v1 \<in> lang a" "v2 \<in> lang b" by auto
  then have e: "u1 @ (u2 @ x) = v1 @ (v2 @ y)" using h by simp
  then have 1: "u1 = v1" using assms(1) d unfolding prefixFree_def by blast
  then have "u2 @ x = v2 @ y" using e by simp
  then have "u2 = v2" using assms(2) d unfolding prefixFree_def by blast
  then show "u = v" using 1 d by simp
qed

lemma lang_rxDigits12:
  "lang rxDigits12 = {[a] | a. isDigit a} \<union> {[a, b] | a b. isDigit a \<and> isDigit b}"
proof -
  have "\<And>a b. isDigit a \<Longrightarrow> isDigit b \<Longrightarrow>
          \<exists>u v. [a, b] = u @ v \<and> (\<exists>y. u = [y] \<and> isDigit y) \<and> (v = [] \<or> (\<exists>y. v = [y] \<and> isDigit y))"
  proof -
    fix a b assume "isDigit a" "isDigit b"
    then have "[a, b] = [a] @ [b] \<and> (\<exists>y. [a] = [y] \<and> isDigit y) \<and>
               ([b] = [] \<or> (\<exists>y. [b] = [y] \<and> isDigit y))" by simp
    then show "\<exists>u v. [a, b] = u @ v \<and> (\<exists>y. u = [y] \<and> isDigit y) \<and> (v = [] \<or> (\<exists>y. v = [y] \<and> isDigit y))"
      by blast
  qed
  then show ?thesis by (auto simp: rxDigits12_def)
qed

lemma prefixFree_digits_then:
  assumes nd: "\<not> isDigit x" and pf: "prefixFree (lang r)"
  shows "prefixFree (lang (Seq rxDigits12 (Seq (Chr x) r)))"
  unfolding prefixFree_def
proof (intro allI impI)
  fix u v p q
  assume h: "u \<in> lang (Seq rxDigits12 (Seq (Chr x) r)) \<and>
             v \<in> lang (Seq rxDigits12 (Seq (Chr x) r)) \<and> u @ p = v @ q"
  then obtain m1 w1 m2 w2 where d: "u = m1 @ x # w1" "m1 \<in> lang rxDigits12" "w1 \<in> lang r"
    "v = m2 @ x # w2" "m2 \<in> lang rxDigits12" "w2 \<in> lang r" by auto
  have e: "m1 @ x # (w1 @ p) = m2 @ x # (w2 @ q)" using h d by simp
  have m: "m1 = m2" using d(2,5) e nd by (auto simp: lang_rxDigits12)
  then have "w1 @ p = w2 @ q" using e by simp
  then have "w1 = w2" using pf d unfolding prefixFree_def by blast
  then show "u = v" using m d by simp
qed

lemma prefixFree_digits_end:
  assumes nd: "\<not> isDigit x"
  shows "prefixFree (lang (Seq rxDigits12 (Chr x)))"
  unfolding prefixFree_def
proof (intro allI impI)
  fix u v p q
  assume h: "u \<in> lang (Seq rxDigits12 (Chr x)) \<and>
             v \<in> lang (Seq rxDigits12 (Chr x)) \<and> u @ p = v @ q"
  then obtain m1 m2 where d: "u = m1 @ [x]" "m1 \<in> lang rxDigits12"
    "v = m2 @ [x]" "m2 \<in> lang rxDigits12" by auto
  have e: "m1 @ x # p = m2 @ x # q" using h d by simp
  have m: "m1 = m2" using d(2,4) e nd by (auto simp: lang_rxDigits12)
  then show "u = v" using d by simp
qed

lemma prefixFree_rxDate: "prefixFree (lang rxDate)"
  unfolding rxDate_def
  by (intro prefixFree_Seq prefixFree_Cls prefixFree_Chr prefixFree_digits_then prefixFree_digits_end)
     (simp_all add: isDigit_def)

lemma anchorFree_rxDate: "anchorFree rxDate"
  by (simp add: rxDate_def rxDigits12_def)

lemma anchorFree_rxTimestamp: "anchorFree rxTimestamp"
  by (simp add: rxTimestamp_def anchorFree_rxDate rxAmPm_def rxTime_def rxDigits12_def)

subsection \<open>What the patterns of the parser match\<close>

lemma execFrom_eq:
  "execFrom r i s =
     (case rmatch r i s (\<lambda>_. None) (finish s i) of
        Some res \<Rightarrow> Some res
      | None \<Rightarrow> (case s of [] \<Rightarrow> None | y # ys \<Rightarrow> execFrom r (Suc i) ys))"
  by (cases s) (auto simp: finish_def split: option.splits)

lemma execFrom_Bol_pos: "0 < i \<Longrightarrow> execFrom (Seq Bol r) i s = None"
  by (induction s arbitrary: i) auto

lemma match_Bol: "match s (Seq Bol r) = rmatch r 0 s (\<lambda>_. None) (finish s 0)"
  by (cases s) (simp_all add: match_def execFrom_Bol_pos finish_def split: option.splits)

lemma execFrom_hit:
  "n \<le> length s \<Longrightarrow> drop n s = w @ t \<Longrightarrow> w \<in> lang r \<Longrightarrow> anchorFree r \<Longrightarrow>
   execFrom r i s \<noteq> None"
proof (induction n arbitrary: i s)
  case 0
  then have "rmatch r i (w @ t) (\<lambda>_. None) (finish (w @ t) i) \<noteq> None"
    by (intro rmatch_complete) (auto simp: finish_def)
  then show ?case using 0 by (subst execFrom_eq) (auto split: option.splits)
next
  case (Suc n)
  then obtain y ys where s: "s = y # ys" by (cases s) auto
  then have "execFrom r (Suc i) ys \<noteq> None" using Suc by simp
  then show ?case using s by (auto split: option.splits)
qed

lemma anchorFree_rxTail: "anchorFree rxTail"
  by (simp add: rxTail_def rxAmPm_def rxTime_def rxDigits12_def)

lemma grps_rxTail: "grps rxTail = {}"
  by (simp add: rxTail_def rxAmPm_def rxTime_def rxDigits12_def)

lemma lang_SeqI: "u \<in> lang a \<Longrightarrow> v \<in> lang b \<Longrightarrow> u @ v \<in> lang (Seq a b)"
  by auto

lemma lang_SeqE: "w \<in> lang (Seq a b) \<Longrightarrow> \<exists>u v. w = u @ v \<and> u \<in> lang a \<and> v \<in> lang b"
  by auto

lemma lang_rxTimestamp: "lang rxTimestamp = {d @ w | d w. d \<in> lang rxDate \<and> w \<in> lang rxTail}"
  unfolding rxTimestamp_def rxTail_def by (subst lang.simps(3)) blast

lemma sep1_unfold:
  "match l dateSeparatorRegex1 =
     rmatch rxTimestamp 0 l (\<lambda>_. None) (\<lambda>j t d. endOnly l j t (d(Suc 0 \<mapsto> take j l)))"
  by (simp add: dateSeparatorRegex1_def match_Bol endOnly_def finish_def)

lemma sep2_unfold:
  "match l dateSeparatorRegex2 =
     rmatch rxDate 0 l (\<lambda>_. None)
       (\<lambda>j t d. rmatch rxTail j t (d(Suc 0 \<mapsto> take j l)) (endOnly l))"
  by (simp add: dateSeparatorRegex2_def match_Bol rxTail_def endOnly_def finish_def)

lemma message_unfold:
  "match l messageRegex =
     rmatch rxTimestamp 0 l (\<lambda>_. None)
       (\<lambda>j t d. rmatch rxMessageRest j t (d(Suc 0 \<mapsto> take j l)) (finish l 0))"
  by (simp add: messageRegex_def match_Bol rxMessageRest_def)

lemma match_sep1:
  assumes "match l dateSeparatorRegex1 = Some dm"
  shows "groups dm 1 = Some l \<and> l \<in> lang rxTimestamp"
proof -
  from assms have m: "rmatch rxTimestamp 0 l (\<lambda>_. None)
      (\<lambda>j t d. endOnly l j t (d(Suc 0 \<mapsto> take j l))) = Some dm"
    unfolding sep1_unfold .
  from rmatch_caps[OF m] obtain w t d where
    1: "l = w @ t" "w \<in> lang rxTimestamp"
       "endOnly l (0 + length w) t (d(Suc 0 \<mapsto> take (0 + length w) l)) = Some dm"
    by (elim exE conjE)
  from 1(3) have "t = []" "groups dm = d(Suc 0 \<mapsto> take (0 + length w) l)"
    by (auto simp: endOnly_def split: if_splits)
  then show ?thesis using 1(1,2) by simp
qed

lemma sep1_complete:
  assumes "l \<in> lang rxTimestamp"
  shows "match l dateSeparatorRegex1 \<noteq> None"
proof -
  have "rmatch rxTimestamp 0 (l @ []) (\<lambda>_. None)
          (\<lambda>j t d. endOnly l j t (d(Suc 0 \<mapsto> take j l))) \<noteq> None"
    using assms anchorFree_rxTimestamp by (intro rmatch_complete) (auto simp: endOnly_def)
  then show ?thesis unfolding sep1_unfold by simp
qed

lemma match_sep2:
  assumes "match l dateSeparatorRegex2 = Some dm"
  shows "\<exists>d t. groups dm 1 = Some d \<and> d \<in> lang rxDate \<and> l = d @ t \<and> l \<in> lang rxTimestamp"
proof -
  from assms have m: "rmatch rxDate 0 l (\<lambda>_. None)
       (\<lambda>j t d. rmatch rxTail j t (d(Suc 0 \<mapsto> take j l)) (endOnly l)) = Some dm"
    unfolding sep2_unfold .
  from rmatch_caps[OF m] obtain w1 t1 d1 where
    1: "l = w1 @ t1" "w1 \<in> lang rxDate"
    "rmatch rxTail (0 + length w1) t1 (d1(Suc 0 \<mapsto> take (0 + length w1) l)) (endOnly l) = Some dm"
    by (elim exE conjE)
  from rmatch_caps[OF 1(3)] obtain w2 t2 d2 where
    2: "t1 = w2 @ t2" "w2 \<in> lang rxTail"
       "extends rxTail (d1(Suc 0 \<mapsto> take (0 + length w1) l)) d2"
       "endOnly l (0 + length w1 + length w2) t2 d2 = Some dm"
    by (elim exE conjE)
  have t2: "t2 = []" and dm: "groups dm = d2"
    using 2(4) by (auto simp: endOnly_def split: if_splits)
  have g: "d2 (Suc 0) = Some w1" using 2(3) 1(1) by (simp add: extends_def grps_rxTail)
  have "l \<in> lang rxTimestamp" using 1(1,2) 2(1,2) t2 unfolding lang_rxTimestamp by blast
  then have "groups dm 1 = Some w1 \<and> w1 \<in> lang rxDate \<and> l = w1 @ t1 \<and> l \<in> lang rxTimestamp"
    using g dm 1(1,2) by simp
  then show ?thesis by blast
qed

lemma sep2_complete:
  assumes "l \<in> lang rxTimestamp"
  shows "match l dateSeparatorRegex2 \<noteq> None"
proof -
  from assms obtain w1 w2 where l: "l = w1 @ w2" "w1 \<in> lang rxDate" "w2 \<in> lang rxTail"
    unfolding lang_rxTimestamp by blast
  have "\<And>d. rmatch rxTail (0 + length w1) (w2 @ []) d (endOnly l) \<noteq> None"
    using l(3) anchorFree_rxTail by (intro rmatch_complete) (auto simp: endOnly_def)
  then have "\<forall>d. rmatch rxTail (0 + length w1) w2 (d(Suc 0 \<mapsto> take (0 + length w1) l)) (endOnly l) \<noteq> None"
    by simp
  then have "rmatch rxDate 0 (w1 @ w2) (\<lambda>_. None)
       (\<lambda>j t d. rmatch rxTail j t (d(Suc 0 \<mapsto> take j l)) (endOnly l)) \<noteq> None"
    using l(2) anchorFree_rxDate by (intro rmatch_complete) 
  then show ?thesis unfolding sep2_unfold l(1) .
qed

lemma sep_same: "(match l dateSeparatorRegex2 = None) = (match l dateSeparatorRegex1 = None)"
proof (cases "match l dateSeparatorRegex1")
  case None
  have "match l dateSeparatorRegex2 = None"
  proof (rule ccontr)
    assume "match l dateSeparatorRegex2 \<noteq> None"
    then obtain dm where "match l dateSeparatorRegex2 = Some dm" by auto
    from match_sep2[OF this] have "l \<in> lang rxTimestamp" by blast
    from sep1_complete[OF this] show False using None by simp
  qed
  then show ?thesis using None by simp
next
  case (Some dm)
  from match_sep1[OF this] have "l \<in> lang rxTimestamp" by blast
  from sep2_complete[OF this] show ?thesis using Some by simp
qed

lemma rxDate_unique:
  assumes "d \<in> lang rxDate" "w \<in> lang rxDate" "d @ t = w @ t'"
  shows "w = d"
  using prefixFree_rxDate assms unfolding prefixFree_def by blast

lemma datePart_prefix:
  assumes "d \<in> lang rxDate"
  shows "\<exists>m. match (d @ t) datePartRegex = Some m \<and> groups m 1 = Some d"
proof -
  let ?k = "\<lambda>j t' c. finish (d @ t) 0 j t' (c(Suc 0 \<mapsto> take (j - 0) (d @ t)))"
  have "rmatch rxDate 0 (d @ t) (\<lambda>_. None) ?k \<noteq> None"
    using assms anchorFree_rxDate by (intro rmatch_complete) (auto simp: finish_def)
  then obtain m where m: "rmatch rxDate 0 (d @ t) (\<lambda>_. None) ?k = Some m" by auto
  from rmatch_caps[OF m] obtain w t' c where
    w: "d @ t = w @ t'" "w \<in> lang rxDate"
       "finish (d @ t) 0 (0 + length w) t' (c(Suc 0 \<mapsto> take (0 + length w - 0) (d @ t))) = Some m"
    by (elim exE conjE)
  have wd: "w = d" using rxDate_unique[OF assms w(2,1)] .
  have "groups m 1 = Some d" using w(3) unfolding wd by (auto simp: finish_def)
  moreover have "match (d @ t) datePartRegex = Some m"
    unfolding match_def datePartRegex_def using m by (subst execFrom_eq) simp
  ultimately show ?thesis by blast
qed

lemma dateOf_prefix:
  assumes "d \<in> lang rxDate"
  shows "match (d @ t) messageDateRegex \<noteq> None \<and> dateOf (d @ t) = d"
proof -
  let ?k = "\<lambda>j t' c. finish (d @ t) 0 j t' (c(Suc 0 \<mapsto> take (j - 0) (d @ t)))"
  have "rmatch rxDate 0 (d @ t) (\<lambda>_. None) ?k \<noteq> None"
    using assms anchorFree_rxDate by (intro rmatch_complete) (auto simp: finish_def)
  then obtain m where m: "rmatch rxDate 0 (d @ t) (\<lambda>_. None) ?k = Some m" by auto
  from rmatch_caps[OF m] obtain w t' c where
    w: "d @ t = w @ t'" "w \<in> lang rxDate"
       "finish (d @ t) 0 (0 + length w) t' (c(Suc 0 \<mapsto> take (0 + length w - 0) (d @ t))) = Some m"
    by (elim exE conjE)
  have wd: "w = d" using rxDate_unique[OF assms w(2,1)] .
  have "whole m = d" using w(3) unfolding wd by (auto simp: finish_def)
  moreover have "match (d @ t) messageDateRegex = Some m"
    using m by (simp add: messageDateRegex_def match_Bol)
  ultimately show ?thesis by (simp add: dateOf_def)
qed

lemma match_message:
  assumes "match l messageRegex = Some mm"
  shows "\<exists>ts u b. groups mm 1 = Some ts \<and> groups mm 2 = Some u \<and> groups mm 3 = Some b \<and>
                  ts \<in> lang rxTimestamp"
proof -
  from assms have m: "rmatch rxTimestamp 0 l (\<lambda>_. None)
       (\<lambda>j t d. rmatch rxMessageRest j t (d(Suc 0 \<mapsto> take j l)) (finish l 0)) = Some mm"
    unfolding message_unfold .
  from rmatch_caps[OF m] obtain w t d where
    1: "l = w @ t" "w \<in> lang rxTimestamp"
    "rmatch rxMessageRest (0 + length w) t (d(Suc 0 \<mapsto> take (0 + length w) l)) (finish l 0) = Some mm"
    by (elim exE conjE)
  from rmatch_caps[OF 1(3)] obtain w' t' d' where
    2: "t = w' @ t'" "w' \<in> lang rxMessageRest"
       "extends rxMessageRest (d(Suc 0 \<mapsto> take (0 + length w) l)) d'"
       "finish l 0 (0 + length w + length w') t' d' = Some mm"
    by (elim exE conjE)
  have "d' (Suc 0) = Some w" "d' 2 \<noteq> None" "d' 3 \<noteq> None"
    using 2(3) 1(1) by (simp_all add: extends_def rxMessageRest_def)
  moreover have "groups mm = d'" using 2(4) by (auto simp: finish_def)
  ultimately show ?thesis using 1(2) by auto
qed

lemma displayTime_matches:
  assumes "ts \<in> lang rxTimestamp"
  shows "match ts displayTimeRegex \<noteq> None"
proof -
  from assms obtain dt w where 1: "ts = dt @ w" "w \<in> lang rxTail"
    unfolding lang_rxTimestamp by blast
  from 1(2) obtain w1 where 2: "w = 0x20 # w1" "w1 \<in> lang (Seq rxAmPm (Seq (Chr 0x20) rxTime))"
    unfolding rxTail_def by (subst (asm) lang.simps(3)) auto
  from lang_SeqE[OF 2(2)] obtain ap w2 where 3: "w1 = ap @ w2" "ap \<in> lang rxAmPm"
    "w2 \<in> lang (Seq (Chr 0x20) rxTime)" by blast
  from lang_SeqE[OF 3(3)] obtain tm where 4: "w2 = 0x20 # tm" "tm \<in> lang rxTime" by auto
  have ts: "ts = dt @ 0x20 # ap @ 0x20 # tm" using 1 2 3 4 by simp
  have sp: "[0x20] \<in> lang (Cls White)" by (simp add: isWhiteSpace_def)
  have tm: "tm \<in> lang (Grp 2 rxTime)" using 4(2) by simp
  have ap: "ap \<in> lang (Grp 1 rxAmPm)" using 3(2) by simp
  have "ap @ [0x20] @ tm \<in> lang displayTimeRegex"
    unfolding displayTimeRegex_def by (rule lang_SeqI[OF ap lang_SeqI[OF sp tm]])
  then have a: "ap @ 0x20 # tm \<in> lang displayTimeRegex" by simp
  have b: "drop (Suc (length dt)) ts = (ap @ 0x20 # tm) @ []" using ts by simp
  have c: "anchorFree displayTimeRegex"
    by (simp add: displayTimeRegex_def rxAmPm_def rxTime_def rxDigits12_def)
  have d: "Suc (length dt) \<le> length ts" using ts by simp
  show ?thesis unfolding match_def using execFrom_hit[OF d b a c] .
qed

lemma displayTime_nonempty:
  "ts \<in> lang rxTimestamp \<Longrightarrow> parseTimestampToDisplayTime ts \<noteq> []"
  using displayTime_matches[of ts] by (auto simp: parseTimestampToDisplayTime_def)

subsection \<open>Both variants of the loop body are \<open>nextState\<close>, and never raise\<close>

lemma messageLine1_eq: "messageLine1 s ts u b = messageLine First s ts u b"
  by (cases "match ts messageDateRegex")
     (simp_all add: messageLine1_def messageLine_def withDate_def dateOf_def Let_def
        datePayload_def storedTimestamp_def)

lemma messageLine2_eq:
  "messageLine2 s ts u b = messageLine Second s ts u b"
  by (cases "match ts messageDateRegex")
     (simp_all add: messageLine2_def messageLine_def withDate_def dateOf_def Let_def
        datePayload_def storedTimestamp_def continues_def)

lemma header_facts:
  assumes "match l dateSeparatorRegex1 = Some dm"
  shows "groups dm 1 = Some l"
    and "\<exists>m. match l datePartRegex = Some m \<and> groups m 1 = Some (dateOf l)"
    and "\<exists>m. match l dateSeparatorRegex2 = Some m \<and> groups m 1 = Some (dateOf l)"
    and "dateOf l \<in> lang rxDate"
proof -
  from match_sep1[OF assms] have g: "groups dm 1 = Some l" and ts: "l \<in> lang rxTimestamp"
    by simp_all
  from ts obtain d w where l: "l = d @ w" "d \<in> lang rxDate"
    unfolding lang_rxTimestamp by blast
  have dl: "dateOf l = d" using dateOf_prefix[OF l(2), of w] l(1) by simp
  show "groups dm 1 = Some l" by (rule g)
  show "\<exists>m. match l datePartRegex = Some m \<and> groups m 1 = Some (dateOf l)"
    using datePart_prefix[OF l(2), of w] l(1) dl by simp
  show "dateOf l \<in> lang rxDate" using dl l(2) by simp
  from sep2_complete[OF ts] obtain m where m: "match l dateSeparatorRegex2 = Some m" by auto
  from match_sep2[OF m] obtain d' t' where
    d': "groups m 1 = Some d'" "d' \<in> lang rxDate" "l = d' @ t'" by blast
  have "d' = d" using rxDate_unique[OF l(2) d'(2), of w t'] l(1) d'(3) by simp
  then show "\<exists>m. match l dateSeparatorRegex2 = Some m \<and> groups m 1 = Some (dateOf l)"
    using m d'(1) dl by simp
qed

lemma step1_next: "step1 s l = Inr (nextState First s l)"
proof (cases "match l dateSeparatorRegex1")
  case (Some dm)
  from header_facts(1,2)[OF Some] obtain m where
    "groups dm 1 = Some l" "match l datePartRegex = Some m" "groups m 1 = Some (dateOf l)"
    by blast
  then show ?thesis using Some
    by (simp add: step1_def nextState_def headerLine_def datePayload_def deletedLine_def Let_def)
next
  case None
  show ?thesis
  proof (cases "match l messageRegex")
    case (Some mm)
    from match_message[OF Some] obtain ts u b where
      "groups mm 1 = Some ts" "groups mm 2 = Some u" "groups mm 3 = Some b" by blast
    then show ?thesis using None Some
      by (simp add: step1_def nextState_def deletedLine_def toStr_def messageLine1_eq)
  next
    case n: None
    then show ?thesis using None
      by (simp add: step1_def nextState_def deletedLine_def)
  qed
qed

lemma step2_next: "step2 s l = Inr (nextState Second s l)"
proof (cases "match l dateSeparatorRegex1")
  case (Some dm)
  from header_facts(3)[OF Some] obtain m where
    "match l dateSeparatorRegex2 = Some m" "groups m 1 = Some (dateOf l)"
    by blast
  then show ?thesis using Some
    by (simp add: step2_def nextState_def headerLine_def datePayload_def deletedLine_def Let_def)
next
  case None
  then have n2: "match l dateSeparatorRegex2 = None" using sep_same[of l] by simp
  show ?thesis
  proof (cases "match l messageRegex")
    case (Some mm)
    from match_message[OF Some] obtain ts u b where
      "groups mm 1 = Some ts" "groups mm 2 = Some u" "groups mm 3 = Some b" by blast
    then show ?thesis using None n2 Some
      by (simp add: step2_def nextState_def deletedLine_def toStr_def messageLine2_eq)
  next
    case n: None
    then show ?thesis using None n2
      by (simp add: step2_def nextState_def deletedLine_def)
  qed
qed

lemma run1_fold: "run1 s ls = Inr (foldl (nextState First) s ls)"
  by (induction ls arbitrary: s) (simp_all add: step1_next)

lemma run2_fold: "run2 s ls = Inr (foldl (nextState Second) s ls)"
  by (induction ls arbitrary: s) (simp_all add: step2_next)

subsection \<open>The whole parse\<close>

lemma parseChat1_eq:
  "parseChat1 src =
     Inr \<lparr>messages = messages (foldl (nextState First) initial (drop 3 (map trim (splitLines src)))),
          users = users (foldl (nextState First) initial (drop 3 (map trim (splitLines src)))),
          title = titleOf (map trim (splitLines src))\<rparr>"
  by (simp add: parseChat1_def run1_fold Let_def)

lemma parseChat2_eq:
  "parseChat2 src =
     Inr \<lparr>messages = messages (foldl (nextState Second) initial (drop 3 (map trim (splitLines src)))),
          users = users (foldl (nextState Second) initial (drop 3 (map trim (splitLines src)))),
          title = titleOf (map trim (splitLines src))\<rparr>"
  by (simp add: parseChat2_def run2_fold Let_def)

lemma splitLines_first: "\<exists>ls. splitLines src = firstLine src # ls"
  by (induction src) (auto simp: firstLine_def)

lemma trim_blank: "\<forall>c\<in>set l. isWhiteSpace c \<Longrightarrow> trim l = []"
proof -
  assume "\<forall>c\<in>set l. isWhiteSpace c"
  then have dw: "dropWhile isWhiteSpace l = []" by (induction l) auto
  show ?thesis unfolding trim_def dw by simp
qed

lemma title_blank:
  assumes "\<forall>c\<in>set (firstLine src). isWhiteSpace c"
  shows "titleOf (map trim (splitLines src)) = defaultTitle"
proof -
  from splitLines_first obtain ls where "splitLines src = firstLine src # ls" by blast
  then show ?thesis using trim_blank[OF assms] by (simp add: titleOf_def)
qed

subsection \<open>Absorbing a line\<close>

lemma appendToLast_cases:
  "appendToLast s l = s \<or>
   (\<exists>i u b t f k. lastMessage s = Some i \<and> i < length (messages s) \<and>
      messages s ! i = Message u b t f k \<and>
      appendToLast s l = s\<lparr>messages := (messages s)[i := Message u (b @ [0x0A] @ l) t f k]\<rparr>)"
  by (auto simp: appendToLast_def deref_def split: option.splits ChatItem.splits)

lemma appendToLast_other [simp]:
  "users (appendToLast s l) = users s"
  "lastMessage (appendToLast s l) = lastMessage s"
  "lastDate (appendToLast s l) = lastDate s"
  "length (messages (appendToLast s l)) = length (messages s)"
  by (auto simp: appendToLast_def deref_def split: option.splits ChatItem.splits)

lemma appendToLast_take:
  "\<forall>i. lastMessage s = Some i \<longrightarrow> n \<le> i \<Longrightarrow>
   take n (messages (appendToLast s l)) = take n (messages s)"
  by (auto simp: appendToLast_def deref_def split: option.splits ChatItem.splits)

subsection \<open>Speakers\<close>

lemma speakers_append [simp]: "speakers (xs @ ys) = speakers xs @ speakers ys"
  by (simp add: speakers_def)

lemma speakers_update:
  "i < length ms \<Longrightarrow> ms ! i = Message u b t f k \<Longrightarrow>
   speakers (ms[i := Message u b' t f k]) = speakers ms"
proof (induction ms arbitrary: i)
  case Nil
  then show ?case by simp
next
  case (Cons a ms)
  then show ?case by (cases i) (auto simp: speakers_def)
qed

lemma appendToLast_speakers [simp]: "speakers (messages (appendToLast s l)) = speakers (messages s)"
  using appendToLast_cases[of s l] by (auto simp: speakers_update)

lemma firstSeen_snoc: "firstSeen (xs @ [x]) = addUser x (firstSeen xs)"
  by (simp add: firstSeen_def addUser_def)

lemma withDate_simps [simp]:
  "users (withDate v s ts) = users s"
  "lastMessage (withDate v s ts) = lastMessage s"
  "speakers (messages (withDate v s ts)) = speakers (messages s)"
  by (simp_all add: withDate_def speakers_def)

lemma nextState_users:
  assumes "users s = firstSeen (speakers (messages s))"
  shows "users (nextState v s l) = firstSeen (speakers (messages (nextState v s l)))"
  using assms
  by (auto simp: nextState_def deletedLine_def headerLine_def messageLine_def Let_def
        firstSeen_snoc speakers_def[of "[_]"] split: option.splits)

lemma fold_users:
  "users s = firstSeen (speakers (messages s)) \<Longrightarrow>
   users (foldl (nextState v) s ls) = firstSeen (speakers (messages (foldl (nextState v) s ls)))"
  by (induction ls arbitrary: s) (simp_all add: nextState_users)

subsection \<open>Display timestamps\<close>

lemma stamped_update:
  "\<forall>x\<in>set ms. stamped x \<Longrightarrow> stamped y \<Longrightarrow> \<forall>x\<in>set (ms[i := y]). stamped x"
  by (metis in_set_conv_nth length_list_update nth_list_update_eq nth_list_update_neq nth_mem)

lemma appendToLast_stamped:
  assumes "\<forall>x\<in>set (messages s). stamped x"
  shows "\<forall>x\<in>set (messages (appendToLast s l)). stamped x"
proof -
  from appendToLast_cases[of s l] show ?thesis
  proof
    assume "appendToLast s l = s" then show ?thesis using assms by simp
  next
    assume "\<exists>i u b t f k. lastMessage s = Some i \<and> i < length (messages s) \<and>
      messages s ! i = Message u b t f k \<and>
      appendToLast s l = s\<lparr>messages := (messages s)[i := Message u (b @ [0x0A] @ l) t f k]\<rparr>"
    then obtain i u b t f k where h: "i < length (messages s)" "messages s ! i = Message u b t f k"
      "appendToLast s l = s\<lparr>messages := (messages s)[i := Message u (b @ [0x0A] @ l) t f k]\<rparr>"
      by blast
    then have "stamped (Message u b t f k)" using assms nth_mem by metis
    then have "stamped (Message u (b @ [0x0A] @ l) t f k)" by (simp add: stamped_def)
    then show ?thesis using h(3) stamped_update[OF assms] by simp
  qed
qed

lemma nextState_stamped:
  assumes "\<forall>x\<in>set (messages s). stamped x"
  shows "\<forall>x\<in>set (messages (nextState v s l)). stamped x"
proof (cases "l \<noteq> [] \<and> l \<noteq> deletedText \<and> match l dateSeparatorRegex1 = None")
  case False
  then show ?thesis using assms
    by (auto simp: nextState_def deletedLine_def headerLine_def stamped_def)
next
  case True
  show ?thesis
  proof (cases "match l messageRegex")
    case None
    then show ?thesis using True appendToLast_stamped[OF assms] by (simp add: nextState_def)
  next
    case (Some mm)
    from match_message[OF Some] obtain ts u b where
      g: "groups mm 1 = Some ts" "groups mm 2 = Some u" "groups mm 3 = Some b"
      "ts \<in> lang rxTimestamp" by blast
    have "parseTimestampToDisplayTime ts \<noteq> []" using displayTime_nonempty[OF g(4)] .
    then show ?thesis using True Some g assms
      by (auto simp: nextState_def messageLine_def withDate_def Let_def toStr_def stamped_def)
  qed
qed

lemma fold_stamped:
  "\<forall>x\<in>set (messages s). stamped x \<Longrightarrow>
   \<forall>x\<in>set (messages (foldl (nextState v) s ls)). stamped x"
proof (induction ls arbitrary: s)
  case Nil
  then show ?case by simp
next
  case (Cons l ls)
  from Cons.IH[OF nextState_stamped[OF Cons.prems, of v l]] show ?case by simp
qed

subsection \<open>Items out of reach of the tracker\<close>

lemma nextState_fenced:
  assumes "fenced n s"
  shows "fenced n (nextState v s l) \<and> take n (messages (nextState v s l)) = take n (messages s)"
  using assms appendToLast_take[of s n l]
  by (auto simp: fenced_def nextState_def deletedLine_def headerLine_def messageLine_def
        withDate_def Let_def split: option.splits)

lemma fold_fenced:
  "fenced n s \<Longrightarrow>
   fenced n (foldl (nextState v) s ls) \<and>
   take n (messages (foldl (nextState v) s ls)) = take n (messages s)"
proof (induction ls arbitrary: s)
  case Nil
  then show ?case by simp
next
  case (Cons l ls)
  from nextState_fenced[OF Cons.prems, of v l] Cons.IH[of "nextState v s l"]
  show ?case by simp
qed

subsection \<open>Date markers\<close>

lemma dateMarkers_append [simp]: "dateMarkers (xs @ ys) = dateMarkers xs @ dateMarkers ys"
  by (simp add: dateMarkers_def)

lemma dateMarkers_single [simp]:
  "dateMarkers [DateSeparator p] = [p]"
  "dateMarkers [Message u b t f k] = []"
  "dateMarkers [SystemMessage c] = []"
  by (simp_all add: dateMarkers_def)

lemma dateMarkers_update:
  "i < length ms \<Longrightarrow> ms ! i = Message u b t f k \<Longrightarrow>
   dateMarkers (ms[i := Message u' b' t' f' k']) = dateMarkers ms"
proof (induction ms arbitrary: i)
  case Nil
  then show ?case by simp
next
  case (Cons a ms)
  then show ?case by (cases i) (auto simp: dateMarkers_def)
qed

lemma appendToLast_dateMarkers [simp]:
  "dateMarkers (messages (appendToLast s l)) = dateMarkers (messages s)"
  using appendToLast_cases[of s l] by (auto simp: dateMarkers_update)

lemma formatDateWithDay_prefix: "\<exists>t. formatDateWithDay d = d @ t"
  by (auto simp: formatDateWithDay_def split: option.splits)

lemma dateOf_payload:
  assumes "dateOf x \<in> lang rxDate"
  shows "dateOf (datePayload v x) = dateOf x"
proof (cases v)
  case First
  then show ?thesis by (simp add: datePayload_def)
next
  case Second
  from formatDateWithDay_prefix obtain t where "formatDateWithDay (dateOf x) = dateOf x @ t"
    by blast
  then show ?thesis using Second dateOf_prefix[OF assms, of t] by (simp add: datePayload_def)
qed

lemma dateOf_timestamp: "ts \<in> lang rxTimestamp \<Longrightarrow> dateOf ts \<in> lang rxDate"
proof -
  assume "ts \<in> lang rxTimestamp"
  then obtain d w where "ts = d @ w" "d \<in> lang rxDate" unfolding lang_rxTimestamp by blast
  then show ?thesis using dateOf_prefix[of d w] by simp
qed

lemma datesTracked_push:
  assumes "datesTracked s" "dateOf x \<in> lang rxDate"
    and "Some (formatDateWithDay (dateOf x)) \<noteq> lastDate s"
  shows "distinct_adj (map dateOf (dateMarkers (messages s) @ [datePayload v x]))"
proof (cases "dateMarkers (messages s) = []")
  case True
  then show ?thesis by simp
next
  case False
  then have "lastDate s = Some (formatDateWithDay (dateOf (last (dateMarkers (messages s)))))"
    using assms(1) by (simp add: datesTracked_def)
  then have "dateOf (last (dateMarkers (messages s))) \<noteq> dateOf x" using assms(3) by auto
  then show ?thesis using assms(1) False
    by (simp add: datesTracked_def distinct_adj_append_iff last_map dateOf_payload[OF assms(2)])
qed

lemma withDate_tracked:
  assumes "datesTracked s" "dateOf x \<in> lang rxDate"
  shows "datesTracked (withDate v s x)"
  using assms datesTracked_push[OF assms, of v]
  by (auto simp: withDate_def datesTracked_def dateOf_payload)

lemma headerLine_tracked:
  assumes "datesTracked s" "dateOf x \<in> lang rxDate"
  shows "datesTracked (headerLine v s x)"
  using assms datesTracked_push[OF assms, of v]
  by (auto simp: headerLine_def datesTracked_def dateOf_payload)

lemma nextState_tracked:
  assumes "datesTracked s"
  shows "datesTracked (nextState v s l)"
proof (cases "l = [] \<or> l = deletedText")
  case True
  then show ?thesis using assms by (auto simp: nextState_def deletedLine_def datesTracked_def)
next
  case False
  show ?thesis
  proof (cases "match l dateSeparatorRegex1")
    case (Some dm)
    from header_facts(4)[OF Some] headerLine_tracked[OF assms, of l v]
    show ?thesis using False Some by (simp add: nextState_def)
  next
    case None
    show ?thesis
    proof (cases "match l messageRegex")
      case n: None
      then show ?thesis using False None assms by (simp add: nextState_def datesTracked_def)
    next
      case (Some mm)
      from match_message[OF Some] obtain ts u b where
        g: "groups mm 1 = Some ts" "groups mm 2 = Some u" "groups mm 3 = Some b"
        "ts \<in> lang rxTimestamp" by blast
      from withDate_tracked[OF assms dateOf_timestamp[OF g(4)], of v]
      have "datesTracked (messageLine v s ts u b)"
        by (simp add: messageLine_def Let_def datesTracked_def)
      then show ?thesis using False None Some g by (simp add: nextState_def toStr_def)
    qed
  qed
qed

lemma fold_tracked:
  "datesTracked s \<Longrightarrow> datesTracked (foldl (nextState v) s ls)"
  by (induction ls arbitrary: s) (simp_all add: nextState_tracked)

lemma header_not_special:
  assumes "match l dateSeparatorRegex1 \<noteq> None"
  shows "l \<noteq> [] \<and> l \<noteq> deletedText"
proof -
  have 1: "match [] dateSeparatorRegex1 = None"
    by (simp add: match_def dateSeparatorRegex1_def rxTimestamp_def rxDate_def)
  have 2: "match deletedText dateSeparatorRegex1 = None"
    by (simp add: match_def dateSeparatorRegex1_def rxTimestamp_def rxDate_def deletedText_def
        isDigit_def)
  show ?thesis using assms 1 2 by auto
qed

lemma nextState_header:
  "match l dateSeparatorRegex1 \<noteq> None \<Longrightarrow> nextState v s l = headerLine v s l"
  using header_not_special[of l] by (simp add: nextState_def)

subsection \<open>The second variant is an image of the first\<close>

lemma deref_map: "deref (map f ms) r = map_option f (deref ms r)"
  by (simp add: deref_def split: option.splits)

lemma continues_conv: "continues (conv s) u t = continues s u t"
  by (cases "deref (messages s) (lastMessage s)")
     (auto simp: continues_def conv_def deref_map split: ChatItem.splits)

lemma appendToLast_conv: "appendToLast (conv s) l = conv (appendToLast s l)"
  by (cases "deref (messages s) (lastMessage s)")
     (auto simp: appendToLast_def conv_def deref_map map_update split: option.splits ChatItem.splits)

lemma withDate_conv:
  "dateOf x \<in> lang rxDate \<Longrightarrow> withDate Second (conv s) x = conv (withDate First s x)"
  using dateOf_payload[of x First]
  by (simp add: withDate_def conv_def datePayload_def)

lemma messageLine_conv:
  assumes "dateOf ts \<in> lang rxDate"
  shows "messageLine Second (conv s) ts u b = conv (messageLine First s ts u b)"
proof -
  have c: "continues (withDate Second (conv s) ts) n t = continues (withDate First s ts) n t" for n t
    unfolding withDate_conv[OF assms] by (rule continues_conv)
  show ?thesis
    unfolding messageLine_def Let_def c
    by (simp add: withDate_conv[OF assms]) (simp add: conv_def storedTimestamp_def)
qed

lemma headerLine_conv:
  "headerLine Second (conv s) l = conv (headerLine First s l)"
  by (simp add: headerLine_def conv_def datePayload_def)

lemma nextState_conv: "nextState Second (conv s) l = conv (nextState First s l)"
proof (cases "match l messageRegex")
  case None
  then show ?thesis
    by (simp add: nextState_def headerLine_conv appendToLast_conv)
       (simp add: conv_def deletedLine_def)
next
  case (Some mm)
  from match_message[OF Some] obtain ts u b where
    g: "groups mm 1 = Some ts" "groups mm 2 = Some u" "groups mm 3 = Some b"
    "ts \<in> lang rxTimestamp" by blast
  show ?thesis using Some g messageLine_conv[OF dateOf_timestamp[OF g(4)], of s u b]
    by (simp add: nextState_def headerLine_conv toStr_def)
       (simp add: conv_def deletedLine_def)
qed

lemma fold_conv:
  "foldl (nextState Second) (conv s) ls = conv (foldl (nextState First) s ls)"
  by (induction ls arbitrary: s) (simp_all add: nextState_conv)

lemma agree_secondForm: "agree x (secondForm x)"
  by (cases x) simp_all

lemma list_all2_agree: "list_all2 agree ms (map secondForm ms)"
  by (simp add: list_all2_conv_all_nth agree_secondForm)

section \<open>The claims\<close>

lemmas evalDefs = step1_def step2_def messageLine1_def messageLine2_def
  appendToLast_def continues_def deref_def addUser_def initial_def titleOf_def deletedText_def
  defaultTitle_def parseTimestampToDisplayTime_def formatDateWithDay_def KOREAN_DAYS_def
  getDay_def newDate_def makeDay_def monthStart_def inLeapYear_def dayFromYear_def parseInt_def
  isHexDigit_def toStr_def match_def messageRegex_def dateSeparatorRegex1_def
  dateSeparatorRegex2_def datePartRegex_def messageDateRegex_def dateFieldsRegex_def
  displayTimeRegex_def rxTimestamp_def rxTime_def rxAmPm_def rxDate_def rxDigits12_def trim_def
  isWhiteSpace_def isLineTerminator_def isDigit_def Let_def

text \<open>
  Claim C7. An input of fewer than four lines gives an empty item list, and an input
  whose first line is blank (white space only) gets the placeholder title; in both variants.
\<close>

theorem short_input_no_items_blank_title_default:
  "(length (splitLines src) < 4 \<longrightarrow>
      (\<exists>r. parseChat1 src = Inr r \<and> messages r = []) \<and>
      (\<exists>r. parseChat2 src = Inr r \<and> messages r = [])) \<and>
   ((\<forall>c\<in>set (firstLine src). isWhiteSpace c) \<longrightarrow>
      (\<exists>r. parseChat1 src = Inr r \<and> title r = defaultTitle) \<and>
      (\<exists>r. parseChat2 src = Inr r \<and> title r = defaultTitle))"
proof (intro conjI impI)
  assume "length (splitLines src) < 4"
  then have d: "drop 3 (map trim (splitLines src)) = []" by simp
  show "\<exists>r. parseChat1 src = Inr r \<and> messages r = []"
    unfolding parseChat1_eq d by (simp add: initial_def)
  show "\<exists>r. parseChat2 src = Inr r \<and> messages r = []"
    unfolding parseChat2_eq d by (simp add: initial_def)
next
  assume b: "\<forall>c\<in>set (firstLine src). isWhiteSpace c"
  show "\<exists>r. parseChat1 src = Inr r \<and> title r = defaultTitle"
    unfolding parseChat1_eq by (simp add: title_blank[OF b])
  show "\<exists>r. parseChat2 src = Inr r \<and> title r = defaultTitle"
    unfolding parseChat2_eq by (simp add: title_blank[OF b])
qed

theorem short_input_no_items_blank_title_default_witness:
  "length (splitLines [0x20, 0x0A, 0x61, 0x62]) < 4 \<and>
   firstLine [0x20, 0x0A, 0x61, 0x62] = [0x20] \<and> isWhiteSpace 0x20 \<and>
   (\<exists>r. parseChat1 [0x20, 0x0A, 0x61, 0x62] = Inr r \<and> messages r = []) \<and>
   (\<exists>r. parseChat2 [0x20, 0x0A, 0x61, 0x62] = Inr r \<and> messages r = []) \<and>
   (\<exists>r. parseChat1 [0x20, 0x0A, 0x61, 0x62] = Inr r \<and> title r = defaultTitle) \<and>
   (\<exists>r. parseChat2 [0x20, 0x0A, 0x61, 0x62] = Inr r \<and> title r = defaultTitle)"
proof -
  have 1: "length (splitLines [0x20, 0x0A, 0x61, 0x62]) < 4" by simp
  have 2: "\<forall>c\<in>set (firstLine [0x20, 0x0A, 0x61, 0x62]). isWhiteSpace c"
    by (simp add: firstLine_def isWhiteSpace_def)
  have 3: "firstLine [0x20, 0x0A, 0x61, 0x62] = [0x20] \<and> isWhiteSpace 0x20"
    by (simp add: firstLine_def isWhiteSpace_def)
  show ?thesis
    using 1 2 3 short_input_no_items_blank_title_default[of "[0x20, 0x0A, 0x61, 0x62]"] by blast
qed

lemma run1_snoc:
  "run1 s (ls @ [l]) = (case run1 s ls of Inl e \<Rightarrow> Inl e | Inr s' \<Rightarrow> step1 s' l)"
  by (induction ls arbitrary: s) (auto split: sum.splits)

lemma example_message_line:
  "run1 initial [[0x32, 0x30, 0x32, 0x34, 0xB144, 0x20, 0x31, 0xC6D4, 0x20, 0x31, 0xC77C, 0x20, 0xC624, 0xC804, 0x20, 0x39, 0x3A, 0x30, 0x30, 0x2C, 0x20, 0x41, 0x20, 0x3A, 0x20, 0x68, 0x65, 0x6C, 0x6C, 0x6F]] =
     Inr \<lparr>messages = [DateSeparator [0x32, 0x30, 0x32, 0x34, 0xB144, 0x20, 0x31, 0xC6D4, 0x20, 0x31, 0xC77C, 0x20, 0xC624, 0xC804, 0x20, 0x39, 0x3A, 0x30, 0x30],
                       Message [0x41] [0x68, 0x65, 0x6C, 0x6C, 0x6F] [0xC624, 0xC804, 0x20, 0x39, 0x3A, 0x30, 0x30] (Some [0x32, 0x30, 0x32, 0x34, 0xB144, 0x20, 0x31, 0xC6D4, 0x20, 0x31, 0xC77C, 0x20, 0xC624, 0xC804, 0x20, 0x39, 0x3A, 0x30, 0x30]) False],
          users = [[0x41]], lastMessage = Some 1, lastDate = Some [0x32, 0x30, 0x32, 0x34, 0xB144, 0x20, 0x31, 0xC6D4, 0x20, 0x31, 0xC77C, 0x20, 0xC6D4, 0xC694, 0xC77C]\<rparr>"
  by (simp add: evalDefs)

lemma example_unmatched_line:
  "[0x77, 0x6F, 0x72, 0x6C, 0x64] \<noteq> [] \<and> [0x77, 0x6F, 0x72, 0x6C, 0x64] \<noteq> deletedText \<and>
   match [0x77, 0x6F, 0x72, 0x6C, 0x64] dateSeparatorRegex1 = None \<and>
   match [0x77, 0x6F, 0x72, 0x6C, 0x64] dateSeparatorRegex2 = None \<and>
   match [0x77, 0x6F, 0x72, 0x6C, 0x64] messageRegex = None"
  by (simp add: evalDefs)

lemma empty_line_matches_nothing:
  "[] \<noteq> deletedText \<and> match [] dateSeparatorRegex1 = None \<and>
   match [] dateSeparatorRegex2 = None \<and> match [] messageRegex = None"
  by (simp add: evalDefs)

text \<open>
  Claim C9. \<open>parseChat\<close> returns a result for every input and never raises: no method is
  ever called on \<open>undefined\<close>, in the whole parse and in every single pass through the loop
  body from any state. A line that is neither the deletion marker, nor a date header, nor a
  message line leaves the state as it is (it is dropped) or is appended, after a line feed,
  to the body of the message that \<open>lastMessage\<close> refers to; nothing else changes. (All
  functions of the model are total, by structural recursion; the regular expressions of
  the source have no nested quantifier, so their backtracking ends.)
\<close>

theorem parseChat_total_unmatched_absorbed_or_dropped:
  "(\<exists>r. parseChat1 src = Inr r) \<and> (\<exists>r. parseChat2 src = Inr r) \<and>
   (\<exists>s'. step1 s l = Inr s') \<and> (\<exists>s'. step2 s l = Inr s') \<and>
   (l \<noteq> deletedText \<and> match l dateSeparatorRegex1 = None \<and> match l messageRegex = None \<longrightarrow>
      step1 s l = Inr s \<or>
      (\<exists>i u b t f k. lastMessage s = Some i \<and> i < length (messages s) \<and>
         messages s ! i = Message u b t f k \<and>
         step1 s l = Inr (s\<lparr>messages := (messages s)[i := Message u (b @ [0x0A] @ l) t f k]\<rparr>))) \<and>
   (l \<noteq> deletedText \<and> match l dateSeparatorRegex2 = None \<and> match l messageRegex = None \<longrightarrow>
      step2 s l = Inr s \<or>
      (\<exists>i u b t f k. lastMessage s = Some i \<and> i < length (messages s) \<and>
         messages s ! i = Message u b t f k \<and>
         step2 s l = Inr (s\<lparr>messages := (messages s)[i := Message u (b @ [0x0A] @ l) t f k]\<rparr>)))"
proof (intro conjI impI)
  show "\<exists>r. parseChat1 src = Inr r" by (simp add: parseChat1_eq)
  show "\<exists>r. parseChat2 src = Inr r" by (simp add: parseChat2_eq)
  show "\<exists>s'. step1 s l = Inr s'" by (simp add: step1_next)
  show "\<exists>s'. step2 s l = Inr s'" by (simp add: step2_next)
next
  assume h: "l \<noteq> deletedText \<and> match l dateSeparatorRegex1 = None \<and> match l messageRegex = None"
  then have "step1 s l = Inr (if l = [] then s else appendToLast s l)"
    by (simp add: step1_next nextState_def)
  then show "step1 s l = Inr s \<or>
      (\<exists>i u b t f k. lastMessage s = Some i \<and> i < length (messages s) \<and>
         messages s ! i = Message u b t f k \<and>
         step1 s l = Inr (s\<lparr>messages := (messages s)[i := Message u (b @ [0x0A] @ l) t f k]\<rparr>))"
    using appendToLast_cases[of s l] by (cases "l = []") auto
next
  assume h: "l \<noteq> deletedText \<and> match l dateSeparatorRegex2 = None \<and> match l messageRegex = None"
  then have "match l dateSeparatorRegex1 = None" using sep_same[of l] by simp
  then have "step2 s l = Inr (if l = [] then s else appendToLast s l)"
    using h by (simp add: step2_next nextState_def)
  then show "step2 s l = Inr s \<or>
      (\<exists>i u b t f k. lastMessage s = Some i \<and> i < length (messages s) \<and>
         messages s ! i = Message u b t f k \<and>
         step2 s l = Inr (s\<lparr>messages := (messages s)[i := Message u (b @ [0x0A] @ l) t f k]\<rparr>))"
    using appendToLast_cases[of s l] by (cases "l = []") auto
qed

theorem parseChat_total_unmatched_absorbed_or_dropped_witness:
  "[0x77, 0x6F, 0x72, 0x6C, 0x64] \<noteq> deletedText \<and>
   match [0x77, 0x6F, 0x72, 0x6C, 0x64] dateSeparatorRegex1 = None \<and>
   match [0x77, 0x6F, 0x72, 0x6C, 0x64] dateSeparatorRegex2 = None \<and>
   match [0x77, 0x6F, 0x72, 0x6C, 0x64] messageRegex = None \<and>
   (\<exists>r. parseChat1 [0x77, 0x6F, 0x72, 0x6C, 0x64] = Inr r) \<and>
   (step1 initial [0x77, 0x6F, 0x72, 0x6C, 0x64] = Inr initial \<or>
    (\<exists>i u b t f k. lastMessage initial = Some i \<and> i < length (messages initial) \<and>
         messages initial ! i = Message u b t f k \<and>
         step1 initial [0x77, 0x6F, 0x72, 0x6C, 0x64] =
           Inr (initial\<lparr>messages := (messages initial)[i := Message u (b @ [0x0A] @ [0x77, 0x6F, 0x72, 0x6C, 0x64]) t f k]\<rparr>))) \<and>
   (step2 initial [0x77, 0x6F, 0x72, 0x6C, 0x64] = Inr initial \<or>
    (\<exists>i u b t f k. lastMessage initial = Some i \<and> i < length (messages initial) \<and>
         messages initial ! i = Message u b t f k \<and>
         step2 initial [0x77, 0x6F, 0x72, 0x6C, 0x64] =
           Inr (initial\<lparr>messages := (messages initial)[i := Message u (b @ [0x0A] @ [0x77, 0x6F, 0x72, 0x6C, 0x64]) t f k]\<rparr>)))"
  using example_unmatched_line
    parseChat_total_unmatched_absorbed_or_dropped
      [where src = "[0x77, 0x6F, 0x72, 0x6C, 0x64]" and s = initial and l = "[0x77, 0x6F, 0x72, 0x6C, 0x64]"]
  by blast

text \<open>
  Claim C5, as stated, fails on an empty line: after the message line
  \<open>TS, A : hello\<close> (\<open>TS\<close> a timestamp of 1 January 2024, 9:00 a.m.) the tracker holds
  that message; the empty line matches none of the three patterns, and the loop leaves the
  state as it is (line 35 skips it), so no line feed is appended to the body.
\<close>

theorem empty_line_is_not_appended:
  "[] \<noteq> deletedText \<and> match [] dateSeparatorRegex1 = None \<and> match [] messageRegex = None \<and>
   run1 initial [[0x32, 0x30, 0x32, 0x34, 0xB144, 0x20, 0x31, 0xC6D4, 0x20, 0x31, 0xC77C, 0x20, 0xC624, 0xC804, 0x20, 0x39, 0x3A, 0x30, 0x30, 0x2C, 0x20, 0x41, 0x20, 0x3A, 0x20, 0x68, 0x65, 0x6C, 0x6C, 0x6F]] =
     Inr \<lparr>messages = [DateSeparator [0x32, 0x30, 0x32, 0x34, 0xB144, 0x20, 0x31, 0xC6D4, 0x20, 0x31, 0xC77C, 0x20, 0xC624, 0xC804, 0x20, 0x39, 0x3A, 0x30, 0x30],
                       Message [0x41] [0x68, 0x65, 0x6C, 0x6C, 0x6F] [0xC624, 0xC804, 0x20, 0x39, 0x3A, 0x30, 0x30] (Some [0x32, 0x30, 0x32, 0x34, 0xB144, 0x20, 0x31, 0xC6D4, 0x20, 0x31, 0xC77C, 0x20, 0xC624, 0xC804, 0x20, 0x39, 0x3A, 0x30, 0x30]) False],
          users = [[0x41]], lastMessage = Some 1, lastDate = Some [0x32, 0x30, 0x32, 0x34, 0xB144, 0x20, 0x31, 0xC6D4, 0x20, 0x31, 0xC77C, 0x20, 0xC6D4, 0xC694, 0xC77C]\<rparr> \<and>
   run1 initial [[0x32, 0x30, 0x32, 0x34, 0xB144, 0x20, 0x31, 0xC6D4, 0x20, 0x31, 0xC77C, 0x20, 0xC624, 0xC804, 0x20, 0x39, 0x3A, 0x30, 0x30, 0x2C, 0x20, 0x41, 0x20, 0x3A, 0x20, 0x68, 0x65, 0x6C, 0x6C, 0x6F], []] =
     Inr \<lparr>messages = [DateSeparator [0x32, 0x30, 0x32, 0x34, 0xB144, 0x20, 0x31, 0xC6D4, 0x20, 0x31, 0xC77C, 0x20, 0xC624, 0xC804, 0x20, 0x39, 0x3A, 0x30, 0x30],
                       Message [0x41] [0x68, 0x65, 0x6C, 0x6C, 0x6F] [0xC624, 0xC804, 0x20, 0x39, 0x3A, 0x30, 0x30] (Some [0x32, 0x30, 0x32, 0x34, 0xB144, 0x20, 0x31, 0xC6D4, 0x20, 0x31, 0xC77C, 0x20, 0xC624, 0xC804, 0x20, 0x39, 0x3A, 0x30, 0x30]) False],
          users = [[0x41]], lastMessage = Some 1, lastDate = Some [0x32, 0x30, 0x32, 0x34, 0xB144, 0x20, 0x31, 0xC6D4, 0x20, 0x31, 0xC77C, 0x20, 0xC6D4, 0xC694, 0xC77C]\<rparr>"
proof -
  have "run1 initial ([[0x32, 0x30, 0x32, 0x34, 0xB144, 0x20, 0x31, 0xC6D4, 0x20, 0x31, 0xC77C, 0x20, 0xC624, 0xC804, 0x20, 0x39, 0x3A, 0x30, 0x30, 0x2C, 0x20, 0x41, 0x20, 0x3A, 0x20, 0x68, 0x65, 0x6C, 0x6C, 0x6F]] @ [[]]) =
     Inr \<lparr>messages = [DateSeparator [0x32, 0x30, 0x32, 0x34, 0xB144, 0x20, 0x31, 0xC6D4, 0x20, 0x31, 0xC77C, 0x20, 0xC624, 0xC804, 0x20, 0x39, 0x3A, 0x30, 0x30],
                       Message [0x41] [0x68, 0x65, 0x6C, 0x6C, 0x6F] [0xC624, 0xC804, 0x20, 0x39, 0x3A, 0x30, 0x30] (Some [0x32, 0x30, 0x32, 0x34, 0xB144, 0x20, 0x31, 0xC6D4, 0x20, 0x31, 0xC77C, 0x20, 0xC624, 0xC804, 0x20, 0x39, 0x3A, 0x30, 0x30]) False],
          users = [[0x41]], lastMessage = Some 1, lastDate = Some [0x32, 0x30, 0x32, 0x34, 0xB144, 0x20, 0x31, 0xC6D4, 0x20, 0x31, 0xC77C, 0x20, 0xC6D4, 0xC694, 0xC77C]\<rparr>"
    unfolding run1_snoc example_message_line by (simp add: step1_def)
  then show ?thesis using empty_line_matches_nothing example_message_line by simp
qed

text \<open>
  Claim C5, amended. A line that is not empty and matches none of the deletion marker, the
  date header and the message pattern, read while \<open>lastMessage\<close> refers to a message, is
  appended to the body of that message after one line feed; the list keeps its length and
  nothing else of the state changes. In both variants.
\<close>

theorem unmatched_line_appended_to_body:
  assumes "l \<noteq> []" "l \<noteq> deletedText" "match l messageRegex = None"
    and "lastMessage s = Some i" "i < length (messages s)" "messages s ! i = Message u b t f k"
  shows "(match l dateSeparatorRegex1 = None \<longrightarrow>
           step1 s l = Inr (s\<lparr>messages := (messages s)[i := Message u (b @ [0x0A] @ l) t f k]\<rparr>)) \<and>
         (match l dateSeparatorRegex2 = None \<longrightarrow>
           step2 s l = Inr (s\<lparr>messages := (messages s)[i := Message u (b @ [0x0A] @ l) t f k]\<rparr>)) \<and>
         length ((messages s)[i := Message u (b @ [0x0A] @ l) t f k]) = length (messages s)"
proof -
  have a: "appendToLast s l = s\<lparr>messages := (messages s)[i := Message u (b @ [0x0A] @ l) t f k]\<rparr>"
    using assms(4-6) by (simp add: appendToLast_def deref_def)
  have "match l dateSeparatorRegex1 = None \<Longrightarrow> nextState v s l = appendToLast s l" for v
    using assms(1-3) by (simp add: nextState_def)
  then show ?thesis using a sep_same[of l] by (simp add: step1_next step2_next)
qed

theorem unmatched_line_appended_to_body_witness:
  "run1 initial [[0x32, 0x30, 0x32, 0x34, 0xB144, 0x20, 0x31, 0xC6D4, 0x20, 0x31, 0xC77C, 0x20, 0xC624, 0xC804, 0x20, 0x39, 0x3A, 0x30, 0x30, 0x2C, 0x20, 0x41, 0x20, 0x3A, 0x20, 0x68, 0x65, 0x6C, 0x6C, 0x6F], [0x77, 0x6F, 0x72, 0x6C, 0x64]] =
     Inr \<lparr>messages = [DateSeparator [0x32, 0x30, 0x32, 0x34, 0xB144, 0x20, 0x31, 0xC6D4, 0x20, 0x31, 0xC77C, 0x20, 0xC624, 0xC804, 0x20, 0x39, 0x3A, 0x30, 0x30],
                       Message [0x41] [0x68, 0x65, 0x6C, 0x6C, 0x6F, 0xA, 0x77, 0x6F, 0x72, 0x6C, 0x64] [0xC624, 0xC804, 0x20, 0x39, 0x3A, 0x30, 0x30] (Some [0x32, 0x30, 0x32, 0x34, 0xB144, 0x20, 0x31, 0xC6D4, 0x20, 0x31, 0xC77C, 0x20, 0xC624, 0xC804, 0x20, 0x39, 0x3A, 0x30, 0x30]) False],
          users = [[0x41]], lastMessage = Some (Suc 0), lastDate = Some [0x32, 0x30, 0x32, 0x34, 0xB144, 0x20, 0x31, 0xC6D4, 0x20, 0x31, 0xC77C, 0x20, 0xC6D4, 0xC694, 0xC77C]\<rparr>"
proof -
  let ?s = "\<lparr>messages = [DateSeparator [0x32, 0x30, 0x32, 0x34, 0xB144, 0x20, 0x31, 0xC6D4, 0x20, 0x31, 0xC77C, 0x20, 0xC624, 0xC804, 0x20, 0x39, 0x3A, 0x30, 0x30],
                       Message [0x41] [0x68, 0x65, 0x6C, 0x6C, 0x6F] [0xC624, 0xC804, 0x20, 0x39, 0x3A, 0x30, 0x30] (Some [0x32, 0x30, 0x32, 0x34, 0xB144, 0x20, 0x31, 0xC6D4, 0x20, 0x31, 0xC77C, 0x20, 0xC624, 0xC804, 0x20, 0x39, 0x3A, 0x30, 0x30]) False],
          users = [[0x41]], lastMessage = Some 1, lastDate = Some [0x32, 0x30, 0x32, 0x34, 0xB144, 0x20, 0x31, 0xC6D4, 0x20, 0x31, 0xC77C, 0x20, 0xC6D4, 0xC694, 0xC77C]\<rparr>"
  have 1: "lastMessage ?s = Some 1" "1 < length (messages ?s)"
    "messages ?s ! 1 = Message [0x41] [0x68, 0x65, 0x6C, 0x6C, 0x6F] [0xC624, 0xC804, 0x20, 0x39, 0x3A, 0x30, 0x30] (Some [0x32, 0x30, 0x32, 0x34, 0xB144, 0x20, 0x31, 0xC6D4, 0x20, 0x31, 0xC77C, 0x20, 0xC624, 0xC804, 0x20, 0x39, 0x3A, 0x30, 0x30]) False"
    by simp_all
  from example_unmatched_line have 2: "[0x77, 0x6F, 0x72, 0x6C, 0x64] \<noteq> []" "[0x77, 0x6F, 0x72, 0x6C, 0x64] \<noteq> deletedText"
    "match [0x77, 0x6F, 0x72, 0x6C, 0x64] messageRegex = None" "match [0x77, 0x6F, 0x72, 0x6C, 0x64] dateSeparatorRegex1 = None"
    by blast+
  from unmatched_line_appended_to_body[OF 2(1-3) 1] 2(4)
  have "step1 ?s [0x77, 0x6F, 0x72, 0x6C, 0x64] = Inr (?s\<lparr>messages := (messages ?s)[1 := Message [0x41] ([0x68, 0x65, 0x6C, 0x6C, 0x6F] @ [0x0A] @ [0x77, 0x6F, 0x72, 0x6C, 0x64]) [0xC624, 0xC804, 0x20, 0x39, 0x3A, 0x30, 0x30] (Some [0x32, 0x30, 0x32, 0x34, 0xB144, 0x20, 0x31, 0xC6D4, 0x20, 0x31, 0xC77C, 0x20, 0xC624, 0xC804, 0x20, 0x39, 0x3A, 0x30, 0x30]) False]\<rparr>)"
    by blast
  then have "run1 initial ([[0x32, 0x30, 0x32, 0x34, 0xB144, 0x20, 0x31, 0xC6D4, 0x20, 0x31, 0xC77C, 0x20, 0xC624, 0xC804, 0x20, 0x39, 0x3A, 0x30, 0x30, 0x2C, 0x20, 0x41, 0x20, 0x3A, 0x20, 0x68, 0x65, 0x6C, 0x6C, 0x6F]] @ [[0x77, 0x6F, 0x72, 0x6C, 0x64]]) =
     Inr \<lparr>messages = [DateSeparator [0x32, 0x30, 0x32, 0x34, 0xB144, 0x20, 0x31, 0xC6D4, 0x20, 0x31, 0xC77C, 0x20, 0xC624, 0xC804, 0x20, 0x39, 0x3A, 0x30, 0x30],
                       Message [0x41] [0x68, 0x65, 0x6C, 0x6C, 0x6F, 0xA, 0x77, 0x6F, 0x72, 0x6C, 0x64] [0xC624, 0xC804, 0x20, 0x39, 0x3A, 0x30, 0x30] (Some [0x32, 0x30, 0x32, 0x34, 0xB144, 0x20, 0x31, 0xC6D4, 0x20, 0x31, 0xC77C, 0x20, 0xC624, 0xC804, 0x20, 0x39, 0x3A, 0x30, 0x30]) False],
          users = [[0x41]], lastMessage = Some (Suc 0), lastDate = Some [0x32, 0x30, 0x32, 0x34, 0xB144, 0x20, 0x31, 0xC6D4, 0x20, 0x31, 0xC77C, 0x20, 0xC6D4, 0xC694, 0xC77C]\<rparr>"
    unfolding run1_snoc example_message_line by simp
  then show ?thesis by simp
qed

lemma example_three_messages:
  "parseChat1 [0x54, 0xA, 0x53, 0xA, 0xA, 0x32, 0x30, 0x32, 0x34, 0xB144, 0x20, 0x31, 0xC6D4, 0x20, 0x31, 0xC77C, 0x20, 0xC624, 0xC804, 0x20, 0x39, 0x3A, 0x30, 0x30, 0x2C, 0x20, 0x41, 0x20, 0x3A, 0x20, 0x78, 0xA, 0x32, 0x30, 0x32, 0x34, 0xB144, 0x20, 0x31, 0xC6D4, 0x20, 0x31, 0xC77C, 0x20, 0xC624, 0xC804, 0x20, 0x39, 0x3A, 0x30, 0x30, 0x2C, 0x20, 0x42, 0x20, 0x3A, 0x20, 0x79, 0xA, 0x32, 0x30, 0x32, 0x34, 0xB144, 0x20, 0x31, 0xC6D4, 0x20, 0x31, 0xC77C, 0x20, 0xC624, 0xC804, 0x20, 0x39, 0x3A, 0x30, 0x30, 0x2C, 0x20, 0x41, 0x20, 0x3A, 0x20, 0x7A] =
   Inr \<lparr>messages = [DateSeparator [0x32, 0x30, 0x32, 0x34, 0xB144, 0x20, 0x31, 0xC6D4, 0x20, 0x31, 0xC77C, 0x20, 0xC624, 0xC804, 0x20, 0x39, 0x3A, 0x30, 0x30],
                      Message [0x41] [0x78] [0xC624, 0xC804, 0x20, 0x39, 0x3A, 0x30, 0x30] (Some [0x32, 0x30, 0x32, 0x34, 0xB144, 0x20, 0x31, 0xC6D4, 0x20, 0x31, 0xC77C, 0x20, 0xC624, 0xC804, 0x20, 0x39, 0x3A, 0x30, 0x30]) False,
                      Message [0x42] [0x79] [0xC624, 0xC804, 0x20, 0x39, 0x3A, 0x30, 0x30] (Some [0x32, 0x30, 0x32, 0x34, 0xB144, 0x20, 0x31, 0xC6D4, 0x20, 0x31, 0xC77C, 0x20, 0xC624, 0xC804, 0x20, 0x39, 0x3A, 0x30, 0x30]) False,
                      Message [0x41] [0x7A] [0xC624, 0xC804, 0x20, 0x39, 0x3A, 0x30, 0x30] (Some [0x32, 0x30, 0x32, 0x34, 0xB144, 0x20, 0x31, 0xC6D4, 0x20, 0x31, 0xC77C, 0x20, 0xC624, 0xC804, 0x20, 0x39, 0x3A, 0x30, 0x30]) False],
         users = [[0x41], [0x42]], title = [0x54]\<rparr>"
  by (simp add: parseChat1_def evalDefs)

lemma example_message_match:
  "\<exists>mm. match [0x32, 0x30, 0x32, 0x34, 0xB144, 0x20, 0x31, 0xC6D4, 0x20, 0x31, 0xC77C, 0x20, 0xC624, 0xC804, 0x20, 0x39, 0x3A, 0x30, 0x30, 0x2C, 0x20, 0x41, 0x20, 0x3A, 0x20, 0x68, 0x65, 0x6C, 0x6C, 0x6F] messageRegex = Some mm \<and>
     groups mm 1 = Some [0x32, 0x30, 0x32, 0x34, 0xB144, 0x20, 0x31, 0xC6D4, 0x20, 0x31, 0xC77C, 0x20, 0xC624, 0xC804, 0x20, 0x39, 0x3A, 0x30, 0x30]"
  by (simp add: evalDefs)

lemma example_display_time:
  "parseTimestampToDisplayTime [0x32, 0x30, 0x32, 0x34, 0xB144, 0x20, 0x31, 0xC6D4, 0x20, 0x31, 0xC77C, 0x20, 0xC624, 0xC804, 0x20, 0x39, 0x3A, 0x30, 0x30] = [0xC624, 0xC804, 0x20, 0x39, 0x3A, 0x30, 0x30]"
  by (simp add: evalDefs)

text \<open>
  Claim C8. The returned speakers are the trimmed speaker names of the emitted messages
  (the \<open>user\<close> fields, in list order) with every repetition after the first removed:
  each name once, in first-seen order. In both variants.
\<close>

theorem speakers_distinct_first_seen:
  "(\<exists>r. parseChat1 src = Inr r \<and> users r = firstSeen (speakers (messages r)) \<and>
        distinct (users r) \<and> set (users r) = set (speakers (messages r))) \<and>
   (\<exists>r. parseChat2 src = Inr r \<and> users r = firstSeen (speakers (messages r)) \<and>
        distinct (users r) \<and> set (users r) = set (speakers (messages r)))"
proof -
  have i: "users initial = firstSeen (speakers (messages initial))"
    by (simp add: initial_def firstSeen_def speakers_def)
  have d: "distinct (firstSeen xs) \<and> set (firstSeen xs) = set xs" for xs :: "jsstring list"
    by (simp add: firstSeen_def)
  show ?thesis
    unfolding parseChat1_eq parseChat2_eq using fold_users[OF i] d by simp
qed

text \<open>The example of the claim: messages of A, B and A give the speakers A, B.\<close>

theorem speakers_distinct_first_seen_witness:
  "\<exists>r. parseChat1 [0x54, 0xA, 0x53, 0xA, 0xA, 0x32, 0x30, 0x32, 0x34, 0xB144, 0x20, 0x31, 0xC6D4, 0x20, 0x31, 0xC77C, 0x20, 0xC624, 0xC804, 0x20, 0x39, 0x3A, 0x30, 0x30, 0x2C, 0x20, 0x41, 0x20, 0x3A, 0x20, 0x78, 0xA, 0x32, 0x30, 0x32, 0x34, 0xB144, 0x20, 0x31, 0xC6D4, 0x20, 0x31, 0xC77C, 0x20, 0xC624, 0xC804, 0x20, 0x39, 0x3A, 0x30, 0x30, 0x2C, 0x20, 0x42, 0x20, 0x3A, 0x20, 0x79, 0xA, 0x32, 0x30, 0x32, 0x34, 0xB144, 0x20, 0x31, 0xC6D4, 0x20, 0x31, 0xC77C, 0x20, 0xC624, 0xC804, 0x20, 0x39, 0x3A, 0x30, 0x30, 0x2C, 0x20, 0x41, 0x20, 0x3A, 0x20, 0x7A] = Inr r \<and>
       speakers (messages r) = [[0x41], [0x42], [0x41]] \<and> users r = [[0x41], [0x42]]"
proof -
  from speakers_distinct_first_seen[of "[0x54, 0xA, 0x53, 0xA, 0xA, 0x32, 0x30, 0x32, 0x34, 0xB144, 0x20, 0x31, 0xC6D4, 0x20, 0x31, 0xC77C, 0x20, 0xC624, 0xC804, 0x20, 0x39, 0x3A, 0x30, 0x30, 0x2C, 0x20, 0x41, 0x20, 0x3A, 0x20, 0x78, 0xA, 0x32, 0x30, 0x32, 0x34, 0xB144, 0x20, 0x31, 0xC6D4, 0x20, 0x31, 0xC77C, 0x20, 0xC624, 0xC804, 0x20, 0x39, 0x3A, 0x30, 0x30, 0x2C, 0x20, 0x42, 0x20, 0x3A, 0x20, 0x79, 0xA, 0x32, 0x30, 0x32, 0x34, 0xB144, 0x20, 0x31, 0xC6D4, 0x20, 0x31, 0xC77C, 0x20, 0xC624, 0xC804, 0x20, 0x39, 0x3A, 0x30, 0x30, 0x2C, 0x20, 0x41, 0x20, 0x3A, 0x20, 0x7A]"]
  obtain r where r: "parseChat1 [0x54, 0xA, 0x53, 0xA, 0xA, 0x32, 0x30, 0x32, 0x34, 0xB144, 0x20, 0x31, 0xC6D4, 0x20, 0x31, 0xC77C, 0x20, 0xC624, 0xC804, 0x20, 0x39, 0x3A, 0x30, 0x30, 0x2C, 0x20, 0x41, 0x20, 0x3A, 0x20, 0x78, 0xA, 0x32, 0x30, 0x32, 0x34, 0xB144, 0x20, 0x31, 0xC6D4, 0x20, 0x31, 0xC77C, 0x20, 0xC624, 0xC804, 0x20, 0x39, 0x3A, 0x30, 0x30, 0x2C, 0x20, 0x42, 0x20, 0x3A, 0x20, 0x79, 0xA, 0x32, 0x30, 0x32, 0x34, 0xB144, 0x20, 0x31, 0xC6D4, 0x20, 0x31, 0xC77C, 0x20, 0xC624, 0xC804, 0x20, 0x39, 0x3A, 0x30, 0x30, 0x2C, 0x20, 0x41, 0x20, 0x3A, 0x20, 0x7A] = Inr r"
    "users r = firstSeen (speakers (messages r))" by blast
  from r(1) have m: "messages r = [DateSeparator [0x32, 0x30, 0x32, 0x34, 0xB144, 0x20, 0x31, 0xC6D4, 0x20, 0x31, 0xC77C, 0x20, 0xC624, 0xC804, 0x20, 0x39, 0x3A, 0x30, 0x30],
                      Message [0x41] [0x78] [0xC624, 0xC804, 0x20, 0x39, 0x3A, 0x30, 0x30] (Some [0x32, 0x30, 0x32, 0x34, 0xB144, 0x20, 0x31, 0xC6D4, 0x20, 0x31, 0xC77C, 0x20, 0xC624, 0xC804, 0x20, 0x39, 0x3A, 0x30, 0x30]) False,
                      Message [0x42] [0x79] [0xC624, 0xC804, 0x20, 0x39, 0x3A, 0x30, 0x30] (Some [0x32, 0x30, 0x32, 0x34, 0xB144, 0x20, 0x31, 0xC6D4, 0x20, 0x31, 0xC77C, 0x20, 0xC624, 0xC804, 0x20, 0x39, 0x3A, 0x30, 0x30]) False,
                      Message [0x41] [0x7A] [0xC624, 0xC804, 0x20, 0x39, 0x3A, 0x30, 0x30] (Some [0x32, 0x30, 0x32, 0x34, 0xB144, 0x20, 0x31, 0xC6D4, 0x20, 0x31, 0xC77C, 0x20, 0xC624, 0xC804, 0x20, 0x39, 0x3A, 0x30, 0x30]) False]"
    unfolding example_three_messages by auto
  have s: "speakers (messages r) = [[0x41], [0x42], [0x41]]" unfolding m by (simp add: speakers_def)
  have "users r = [[0x41], [0x42]]" unfolding r(2) s by (simp add: firstSeen_def)
  then show ?thesis using r(1) s by blast
qed

text \<open>
  Claim C10. Every message item of the result has a non-empty display timestamp: the
  first group of a match of the message pattern is a full timestamp, in which the pattern
  of \<open>parseTimestampToDisplayTime\<close> finds a match, so that function does not return the
  empty string for it. In both variants.
\<close>

theorem message_timestamp_never_empty:
  "(\<exists>r. parseChat1 src = Inr r \<and>
        (\<forall>u b t f k. Message u b t f k \<in> set (messages r) \<longrightarrow> t \<noteq> [])) \<and>
   (\<exists>r. parseChat2 src = Inr r \<and>
        (\<forall>u b t f k. Message u b t f k \<in> set (messages r) \<longrightarrow> t \<noteq> [])) \<and>
   (match l messageRegex = Some mm \<longrightarrow>
      (\<exists>ts. groups mm 1 = Some ts \<and> match ts displayTimeRegex \<noteq> None \<and>
            parseTimestampToDisplayTime ts \<noteq> []))"
proof -
  have i: "\<forall>x\<in>set (messages initial). stamped x" by (simp add: initial_def)
  have s: "\<forall>u b t f k. Message u b t f k \<in> set ms \<longrightarrow> t \<noteq> []"
    if a: "\<forall>x\<in>set ms. stamped x" for ms
  proof (intro allI impI)
    fix u b t f k
    assume "Message u b t f k \<in> set ms"
    with a have "stamped (Message u b t f k)" by blast
    then show "t \<noteq> []" by (simp add: stamped_def)
  qed
  have 1: "\<exists>r. parseChat1 src = Inr r \<and>
        (\<forall>u b t f k. Message u b t f k \<in> set (messages r) \<longrightarrow> t \<noteq> [])"
    unfolding parseChat1_eq using s[OF fold_stamped[OF i]] by simp
  have 2: "\<exists>r. parseChat2 src = Inr r \<and>
        (\<forall>u b t f k. Message u b t f k \<in> set (messages r) \<longrightarrow> t \<noteq> [])"
    unfolding parseChat2_eq using s[OF fold_stamped[OF i]] by simp
  have 3: "match l messageRegex = Some mm \<longrightarrow>
      (\<exists>ts. groups mm 1 = Some ts \<and> match ts displayTimeRegex \<noteq> None \<and>
            parseTimestampToDisplayTime ts \<noteq> [])"
    using match_message[of l mm] displayTime_matches displayTime_nonempty by blast
  show ?thesis using 1 2 3 by blast
qed

theorem message_timestamp_never_empty_witness:
  "(\<exists>mm. match [0x32, 0x30, 0x32, 0x34, 0xB144, 0x20, 0x31, 0xC6D4, 0x20, 0x31, 0xC77C, 0x20, 0xC624, 0xC804, 0x20, 0x39, 0x3A, 0x30, 0x30, 0x2C, 0x20, 0x41, 0x20, 0x3A, 0x20, 0x68, 0x65, 0x6C, 0x6C, 0x6F] messageRegex = Some mm \<and>
      (\<exists>ts. groups mm 1 = Some ts \<and> match ts displayTimeRegex \<noteq> None \<and>
            parseTimestampToDisplayTime ts \<noteq> [])) \<and>
   parseTimestampToDisplayTime [0x32, 0x30, 0x32, 0x34, 0xB144, 0x20, 0x31, 0xC6D4, 0x20, 0x31, 0xC77C, 0x20, 0xC624, 0xC804, 0x20, 0x39, 0x3A, 0x30, 0x30] = [0xC624, 0xC804, 0x20, 0x39, 0x3A, 0x30, 0x30]"
  using example_message_match example_display_time
    message_timestamp_never_empty[where l = "[0x32, 0x30, 0x32, 0x34, 0xB144, 0x20, 0x31, 0xC6D4, 0x20, 0x31, 0xC77C, 0x20, 0xC624, 0xC804, 0x20, 0x39, 0x3A, 0x30, 0x30, 0x2C, 0x20, 0x41, 0x20, 0x3A, 0x20, 0x68, 0x65, 0x6C, 0x6C, 0x6F]"]
  by blast

text \<open>
  Claim C6. The deletion marker makes the loop append a system notice with the marker's
  text and clear \<open>lastMessage\<close>; whatever lines follow, the items emitted before the marker
  and the notice itself are in the final list as they were, so no later line is absorbed
  into the body of a message from before the marker. In both variants, from any state.
\<close>

theorem deletion_marker_resets_tracking:
  "step1 s deletedText =
     Inr (s\<lparr>messages := messages s @ [SystemMessage deletedText], lastMessage := None\<rparr>) \<and>
   step2 s deletedText =
     Inr (s\<lparr>messages := messages s @ [SystemMessage deletedText], lastMessage := None\<rparr>) \<and>
   (\<exists>t. run1 s (deletedText # rest) = Inr t \<and>
        take (Suc (length (messages s))) (messages t) = messages s @ [SystemMessage deletedText]) \<and>
   (\<exists>t. run2 s (deletedText # rest) = Inr t \<and>
        take (Suc (length (messages s))) (messages t) = messages s @ [SystemMessage deletedText])"
proof -
  have n: "nextState v s deletedText = deletedLine s" for v
    by (simp add: nextState_def deletedText_def)
  have f: "fenced (Suc (length (messages s))) (deletedLine s)"
    by (simp add: fenced_def deletedLine_def)
  have "take (Suc (length (messages s))) (messages (foldl (nextState v) (deletedLine s) rest)) =
        messages s @ [SystemMessage deletedText]" for v
    using fold_fenced[OF f, of v rest] by (simp add: deletedLine_def)
  then show ?thesis
    by (simp add: step1_next step2_next run1_fold run2_fold n) (simp add: deletedLine_def)
qed

text \<open>
  After the message \<open>TS, A : hello\<close>, the marker and then the line \<open>world\<close>: the first
  three items of the final list are the date marker, the message with its body \<open>hello\<close>
  and the notice.
\<close>

theorem deletion_marker_resets_tracking_witness:
  "\<exists>t. run1 \<lparr>messages = [DateSeparator [0x32, 0x30, 0x32, 0x34, 0xB144, 0x20, 0x31, 0xC6D4, 0x20, 0x31, 0xC77C, 0x20, 0xC624, 0xC804, 0x20, 0x39, 0x3A, 0x30, 0x30],
                       Message [0x41] [0x68, 0x65, 0x6C, 0x6C, 0x6F] [0xC624, 0xC804, 0x20, 0x39, 0x3A, 0x30, 0x30] (Some [0x32, 0x30, 0x32, 0x34, 0xB144, 0x20, 0x31, 0xC6D4, 0x20, 0x31, 0xC77C, 0x20, 0xC624, 0xC804, 0x20, 0x39, 0x3A, 0x30, 0x30]) False],
          users = [[0x41]], lastMessage = Some 1, lastDate = Some [0x32, 0x30, 0x32, 0x34, 0xB144, 0x20, 0x31, 0xC6D4, 0x20, 0x31, 0xC77C, 0x20, 0xC6D4, 0xC694, 0xC77C]\<rparr>
          [deletedText, [0x77, 0x6F, 0x72, 0x6C, 0x64]] = Inr t \<and>
       take 3 (messages t) =
         [DateSeparator [0x32, 0x30, 0x32, 0x34, 0xB144, 0x20, 0x31, 0xC6D4, 0x20, 0x31, 0xC77C, 0x20, 0xC624, 0xC804, 0x20, 0x39, 0x3A, 0x30, 0x30],
          Message [0x41] [0x68, 0x65, 0x6C, 0x6C, 0x6F] [0xC624, 0xC804, 0x20, 0x39, 0x3A, 0x30, 0x30] (Some [0x32, 0x30, 0x32, 0x34, 0xB144, 0x20, 0x31, 0xC6D4, 0x20, 0x31, 0xC77C, 0x20, 0xC624, 0xC804, 0x20, 0x39, 0x3A, 0x30, 0x30]) False,
          SystemMessage deletedText]"
  using deletion_marker_resets_tracking
    [of "\<lparr>messages = [DateSeparator [0x32, 0x30, 0x32, 0x34, 0xB144, 0x20, 0x31, 0xC6D4, 0x20, 0x31, 0xC77C, 0x20, 0xC624, 0xC804, 0x20, 0x39, 0x3A, 0x30, 0x30],
                       Message [0x41] [0x68, 0x65, 0x6C, 0x6C, 0x6F] [0xC624, 0xC804, 0x20, 0x39, 0x3A, 0x30, 0x30] (Some [0x32, 0x30, 0x32, 0x34, 0xB144, 0x20, 0x31, 0xC6D4, 0x20, 0x31, 0xC77C, 0x20, 0xC624, 0xC804, 0x20, 0x39, 0x3A, 0x30, 0x30]) False],
          users = [[0x41]], lastMessage = Some 1, lastDate = Some [0x32, 0x30, 0x32, 0x34, 0xB144, 0x20, 0x31, 0xC6D4, 0x20, 0x31, 0xC77C, 0x20, 0xC6D4, 0xC694, 0xC77C]\<rparr>"
        "[[0x77, 0x6F, 0x72, 0x6C, 0x64]]"]
  by (auto simp: numeral_3_eq_3)

lemmas parseDefs = parseChat1_def parseChat2_def evalDefs

lemma example_header_line:
  "match [0x32, 0x30, 0x32, 0x34, 0xB144, 0x20, 0x31, 0xC6D4, 0x20, 0x31, 0xC77C, 0x20, 0xC624, 0xC804, 0x20, 0x39, 0x3A, 0x30, 0x30] dateSeparatorRegex1 \<noteq> None \<and>
   dateOf [0x32, 0x30, 0x32, 0x34, 0xB144, 0x20, 0x31, 0xC6D4, 0x20, 0x31, 0xC77C, 0x20, 0xC624, 0xC804, 0x20, 0x39, 0x3A, 0x30, 0x30] = [0x32, 0x30, 0x32, 0x34, 0xB144, 0x20, 0x31, 0xC6D4, 0x20, 0x31, 0xC77C] \<and>
   formatDateWithDay [0x32, 0x30, 0x32, 0x34, 0xB144, 0x20, 0x31, 0xC6D4, 0x20, 0x31, 0xC77C] = [0x32, 0x30, 0x32, 0x34, 0xB144, 0x20, 0x31, 0xC6D4, 0x20, 0x31, 0xC77C, 0x20, 0xC6D4, 0xC694, 0xC77C]"
  by (simp add: evalDefs dateOf_def)

lemma example_padded_header_line:
  "match [0x32, 0x30, 0x32, 0x34, 0xB144, 0x20, 0x30, 0x31, 0xC6D4, 0x20, 0x30, 0x31, 0xC77C, 0x20, 0xC624, 0xC804, 0x20, 0x39, 0x3A, 0x30, 0x30] dateSeparatorRegex1 \<noteq> None \<and>
   dateOf [0x32, 0x30, 0x32, 0x34, 0xB144, 0x20, 0x30, 0x31, 0xC6D4, 0x20, 0x30, 0x31, 0xC77C, 0x20, 0xC624, 0xC804, 0x20, 0x39, 0x3A, 0x30, 0x30] = [0x32, 0x30, 0x32, 0x34, 0xB144, 0x20, 0x30, 0x31, 0xC6D4, 0x20, 0x30, 0x31, 0xC77C] \<and>
   formatDateWithDay [0x32, 0x30, 0x32, 0x34, 0xB144, 0x20, 0x30, 0x31, 0xC6D4, 0x20, 0x30, 0x31, 0xC77C] = [0x32, 0x30, 0x32, 0x34, 0xB144, 0x20, 0x30, 0x31, 0xC6D4, 0x20, 0x30, 0x31, 0xC77C, 0x20, 0xC6D4, 0xC694, 0xC77C]"
  by (simp add: evalDefs dateOf_def)

text \<open>
  Claim C1 (the code departs from it). Two messages of speaker A at 9:00 a.m. on 1 January
  and at 9:00 a.m. on 2 January 2024: the second message line emits the date marker of the
  new day (lines 73 to 80) without clearing \<open>lastMessage\<close>, so the second message is
  flagged a continuation although the item before it in the list is a date marker. The
  date header path (line 60) and the deletion path (line 43) clear the tracker when they
  emit their item; the message path does not. In both variants.
\<close>

theorem continuation_flag_set_across_date_marker:
  "parseChat1 [0x54, 0xA, 0x53, 0xA, 0xA, 0x32, 0x30, 0x32, 0x34, 0xB144, 0x20, 0x31, 0xC6D4, 0x20, 0x31, 0xC77C, 0x20, 0xC624, 0xC804, 0x20, 0x39, 0x3A, 0x30, 0x30, 0x2C, 0x20, 0x41, 0x20, 0x3A, 0x20, 0x68, 0x69, 0xA, 0x32, 0x30, 0x32, 0x34, 0xB144, 0x20, 0x31, 0xC6D4, 0x20, 0x32, 0xC77C, 0x20, 0xC624, 0xC804, 0x20, 0x39, 0x3A, 0x30, 0x30, 0x2C, 0x20, 0x41, 0x20, 0x3A, 0x20, 0x79, 0x6F] =
     Inr \<lparr>messages =
            [DateSeparator [0x32, 0x30, 0x32, 0x34, 0xB144, 0x20, 0x31, 0xC6D4, 0x20, 0x31, 0xC77C, 0x20, 0xC624, 0xC804, 0x20, 0x39, 0x3A, 0x30, 0x30],
             Message [0x41] [0x68, 0x69] [0xC624, 0xC804, 0x20, 0x39, 0x3A, 0x30, 0x30] (Some [0x32, 0x30, 0x32, 0x34, 0xB144, 0x20, 0x31, 0xC6D4, 0x20, 0x31, 0xC77C, 0x20, 0xC624, 0xC804, 0x20, 0x39, 0x3A, 0x30, 0x30]) False,
             DateSeparator [0x32, 0x30, 0x32, 0x34, 0xB144, 0x20, 0x31, 0xC6D4, 0x20, 0x32, 0xC77C, 0x20, 0xC624, 0xC804, 0x20, 0x39, 0x3A, 0x30, 0x30],
             Message [0x41] [0x79, 0x6F] [0xC624, 0xC804, 0x20, 0x39, 0x3A, 0x30, 0x30] (Some [0x32, 0x30, 0x32, 0x34, 0xB144, 0x20, 0x31, 0xC6D4, 0x20, 0x32, 0xC77C, 0x20, 0xC624, 0xC804, 0x20, 0x39, 0x3A, 0x30, 0x30]) True],
          users = [[0x41]], title = [0x54]\<rparr> \<and>
   parseChat2 [0x54, 0xA, 0x53, 0xA, 0xA, 0x32, 0x30, 0x32, 0x34, 0xB144, 0x20, 0x31, 0xC6D4, 0x20, 0x31, 0xC77C, 0x20, 0xC624, 0xC804, 0x20, 0x39, 0x3A, 0x30, 0x30, 0x2C, 0x20, 0x41, 0x20, 0x3A, 0x20, 0x68, 0x69, 0xA, 0x32, 0x30, 0x32, 0x34, 0xB144, 0x20, 0x31, 0xC6D4, 0x20, 0x32, 0xC77C, 0x20, 0xC624, 0xC804, 0x20, 0x39, 0x3A, 0x30, 0x30, 0x2C, 0x20, 0x41, 0x20, 0x3A, 0x20, 0x79, 0x6F] =
     Inr \<lparr>messages =
            [DateSeparator [0x32, 0x30, 0x32, 0x34, 0xB144, 0x20, 0x31, 0xC6D4, 0x20, 0x31, 0xC77C, 0x20, 0xC6D4, 0xC694, 0xC77C],
             Message [0x41] [0x68, 0x69] [0xC624, 0xC804, 0x20, 0x39, 0x3A, 0x30, 0x30] None False,
             DateSeparator [0x32, 0x30, 0x32, 0x34, 0xB144, 0x20, 0x31, 0xC6D4, 0x20, 0x32, 0xC77C, 0x20, 0xD654, 0xC694, 0xC77C],
             Message [0x41] [0x79, 0x6F] [0xC624, 0xC804, 0x20, 0x39, 0x3A, 0x30, 0x30] None True],
          users = [[0x41]], title = [0x54]\<rparr>"
  by (simp add: parseDefs)

text \<open>
  Claim C2, as stated, fails when the header repeats the tracked date. The lines are a
  message \<open>TS, A : hello\<close>, the header \<open>TS\<close> of the same day, the text \<open>world\<close> and a
  message \<open>TS, A : again\<close>. The header is skipped as a duplicate and \<open>lastMessage\<close> is not
  cleared (line 60 is inside the test of line 53): \<open>world\<close> is absorbed into the body of the
  message from before the header, and the later message is flagged a continuation of it.
\<close>

theorem duplicate_header_keeps_tracker:
  "match [0x32, 0x30, 0x32, 0x34, 0xB144, 0x20, 0x31, 0xC6D4, 0x20, 0x31, 0xC77C, 0x20, 0xC624, 0xC804, 0x20, 0x39, 0x3A, 0x30, 0x30] dateSeparatorRegex1 \<noteq> None \<and>
   parseChat1 [0x54, 0xA, 0x53, 0xA, 0xA, 0x32, 0x30, 0x32, 0x34, 0xB144, 0x20, 0x31, 0xC6D4, 0x20, 0x31, 0xC77C, 0x20, 0xC624, 0xC804, 0x20, 0x39, 0x3A, 0x30, 0x30, 0x2C, 0x20, 0x41, 0x20, 0x3A, 0x20, 0x68, 0x65, 0x6C, 0x6C, 0x6F, 0xA, 0x32, 0x30, 0x32, 0x34, 0xB144, 0x20, 0x31, 0xC6D4, 0x20, 0x31, 0xC77C, 0x20, 0xC624, 0xC804, 0x20, 0x39, 0x3A, 0x30, 0x30, 0xA, 0x77, 0x6F, 0x72, 0x6C, 0x64, 0xA, 0x32, 0x30, 0x32, 0x34, 0xB144, 0x20, 0x31, 0xC6D4, 0x20, 0x31, 0xC77C, 0x20, 0xC624, 0xC804, 0x20, 0x39, 0x3A, 0x30, 0x30, 0x2C, 0x20, 0x41, 0x20, 0x3A, 0x20, 0x61, 0x67, 0x61, 0x69, 0x6E] =
     Inr \<lparr>messages =
            [DateSeparator [0x32, 0x30, 0x32, 0x34, 0xB144, 0x20, 0x31, 0xC6D4, 0x20, 0x31, 0xC77C, 0x20, 0xC624, 0xC804, 0x20, 0x39, 0x3A, 0x30, 0x30],
             Message [0x41] [0x68, 0x65, 0x6C, 0x6C, 0x6F, 0xA, 0x77, 0x6F, 0x72, 0x6C, 0x64] [0xC624, 0xC804, 0x20, 0x39, 0x3A, 0x30, 0x30] (Some [0x32, 0x30, 0x32, 0x34, 0xB144, 0x20, 0x31, 0xC6D4, 0x20, 0x31, 0xC77C, 0x20, 0xC624, 0xC804, 0x20, 0x39, 0x3A, 0x30, 0x30]) False,
             Message [0x41] [0x61, 0x67, 0x61, 0x69, 0x6E] [0xC624, 0xC804, 0x20, 0x39, 0x3A, 0x30, 0x30] (Some [0x32, 0x30, 0x32, 0x34, 0xB144, 0x20, 0x31, 0xC6D4, 0x20, 0x31, 0xC77C, 0x20, 0xC624, 0xC804, 0x20, 0x39, 0x3A, 0x30, 0x30]) True],
          users = [[0x41]], title = [0x54]\<rparr> \<and>
   parseChat2 [0x54, 0xA, 0x53, 0xA, 0xA, 0x32, 0x30, 0x32, 0x34, 0xB144, 0x20, 0x31, 0xC6D4, 0x20, 0x31, 0xC77C, 0x20, 0xC624, 0xC804, 0x20, 0x39, 0x3A, 0x30, 0x30, 0x2C, 0x20, 0x41, 0x20, 0x3A, 0x20, 0x68, 0x65, 0x6C, 0x6C, 0x6F, 0xA, 0x32, 0x30, 0x32, 0x34, 0xB144, 0x20, 0x31, 0xC6D4, 0x20, 0x31, 0xC77C, 0x20, 0xC624, 0xC804, 0x20, 0x39, 0x3A, 0x30, 0x30, 0xA, 0x77, 0x6F, 0x72, 0x6C, 0x64, 0xA, 0x32, 0x30, 0x32, 0x34, 0xB144, 0x20, 0x31, 0xC6D4, 0x20, 0x31, 0xC77C, 0x20, 0xC624, 0xC804, 0x20, 0x39, 0x3A, 0x30, 0x30, 0x2C, 0x20, 0x41, 0x20, 0x3A, 0x20, 0x61, 0x67, 0x61, 0x69, 0x6E] =
     Inr \<lparr>messages =
            [DateSeparator [0x32, 0x30, 0x32, 0x34, 0xB144, 0x20, 0x31, 0xC6D4, 0x20, 0x31, 0xC77C, 0x20, 0xC6D4, 0xC694, 0xC77C],
             Message [0x41] [0x68, 0x65, 0x6C, 0x6C, 0x6F, 0xA, 0x77, 0x6F, 0x72, 0x6C, 0x64] [0xC624, 0xC804, 0x20, 0x39, 0x3A, 0x30, 0x30] None False,
             Message [0x41] [0x61, 0x67, 0x61, 0x69, 0x6E] [0xC624, 0xC804, 0x20, 0x39, 0x3A, 0x30, 0x30] None True],
          users = [[0x41]], title = [0x54]\<rparr>"
  using example_header_line by (simp add: parseDefs)

text \<open>
  Claim C2, amended. The date header patterns of the two variants match the same lines.
  Such a line, when its formatted date differs from \<open>lastDate\<close>, appends a date marker, sets
  \<open>lastDate\<close> and clears \<open>lastMessage\<close>; then, whatever lines follow, the items from before
  the header and the marker are in the final list as they were (no later line is absorbed
  into a message from before the header) and \<open>lastMessage\<close> never again refers to an item
  from before the header (no later message is a continuation of one). When its formatted
  date equals \<open>lastDate\<close> the line is skipped and the whole state, \<open>lastMessage\<close> included,
  stays as it is. (\<open>dateOf l\<close> is the date text at the start of \<open>l\<close>.)
\<close>

theorem date_header_resets_tracker_when_emitted:
  assumes "match l dateSeparatorRegex1 \<noteq> None"
  shows "match l dateSeparatorRegex2 \<noteq> None \<and>
    (Some (formatDateWithDay (dateOf l)) \<noteq> lastDate s \<longrightarrow>
       step1 s l = Inr (s\<lparr>messages := messages s @ [DateSeparator l],
                           lastDate := Some (formatDateWithDay (dateOf l)),
                           lastMessage := None\<rparr>) \<and>
       step2 s l = Inr (s\<lparr>messages := messages s @ [DateSeparator (formatDateWithDay (dateOf l))],
                           lastDate := Some (formatDateWithDay (dateOf l)),
                           lastMessage := None\<rparr>) \<and>
       (\<exists>t. run1 s (l # rest) = Inr t \<and>
            take (Suc (length (messages s))) (messages t) = messages s @ [DateSeparator l] \<and>
            (\<forall>i. lastMessage t = Some i \<longrightarrow> length (messages s) < i)) \<and>
       (\<exists>t. run2 s (l # rest) = Inr t \<and>
            take (Suc (length (messages s))) (messages t) =
              messages s @ [DateSeparator (formatDateWithDay (dateOf l))] \<and>
            (\<forall>i. lastMessage t = Some i \<longrightarrow> length (messages s) < i))) \<and>
    (Some (formatDateWithDay (dateOf l)) = lastDate s \<longrightarrow> step1 s l = Inr s \<and> step2 s l = Inr s)"
proof (intro conjI impI)
  show "match l dateSeparatorRegex2 \<noteq> None" using assms sep_same[of l] by simp
next
  assume "Some (formatDateWithDay (dateOf l)) = lastDate s"
  then have "nextState v s l = s" for v
    by (simp add: nextState_header[OF assms] headerLine_def)
  then show "step1 s l = Inr s" "step2 s l = Inr s"
    by (simp_all add: step1_next step2_next)
next
  assume d: "Some (formatDateWithDay (dateOf l)) \<noteq> lastDate s"
  have n: "nextState v s l =
             s\<lparr>messages := messages s @ [DateSeparator (datePayload v l)],
               lastDate := Some (formatDateWithDay (dateOf l)), lastMessage := None\<rparr>" for v
    using d by (simp add: nextState_header[OF assms] headerLine_def)
  show "step1 s l = Inr (s\<lparr>messages := messages s @ [DateSeparator l],
                           lastDate := Some (formatDateWithDay (dateOf l)),
                           lastMessage := None\<rparr>)"
    by (simp add: step1_next n datePayload_def)
  show "step2 s l = Inr (s\<lparr>messages := messages s @ [DateSeparator (formatDateWithDay (dateOf l))],
                           lastDate := Some (formatDateWithDay (dateOf l)),
                           lastMessage := None\<rparr>)"
    by (simp add: step2_next n datePayload_def)
  have f: "fenced (Suc (length (messages s))) (nextState v s l)" for v
    by (simp add: n fenced_def)
  have k: "take (Suc (length (messages s))) (messages (foldl (nextState v) (nextState v s l) rest)) =
             messages s @ [DateSeparator (datePayload v l)] \<and>
           (\<forall>i. lastMessage (foldl (nextState v) (nextState v s l) rest) = Some i \<longrightarrow>
                 length (messages s) < i)" for v
    using fold_fenced[OF f[of v], of v rest] by (auto simp: n fenced_def)
  show "\<exists>t. run1 s (l # rest) = Inr t \<and>
            take (Suc (length (messages s))) (messages t) = messages s @ [DateSeparator l] \<and>
            (\<forall>i. lastMessage t = Some i \<longrightarrow> length (messages s) < i)"
    using k[of First] by (simp add: step1_next run1_fold datePayload_def)
  show "\<exists>t. run2 s (l # rest) = Inr t \<and>
            take (Suc (length (messages s))) (messages t) =
              messages s @ [DateSeparator (formatDateWithDay (dateOf l))] \<and>
            (\<forall>i. lastMessage t = Some i \<longrightarrow> length (messages s) < i)"
    using k[of Second] by (simp add: step2_next run2_fold datePayload_def)
qed

text \<open>
  The header of 1 January 2024 read in the initial state (it is emitted), and read again
  after a message of that day (it is skipped).
\<close>

theorem date_header_resets_tracker_when_emitted_witness:
  "match [0x32, 0x30, 0x32, 0x34, 0xB144, 0x20, 0x31, 0xC6D4, 0x20, 0x31, 0xC77C, 0x20, 0xC624, 0xC804, 0x20, 0x39, 0x3A, 0x30, 0x30] dateSeparatorRegex1 \<noteq> None \<and>
   step1 initial [0x32, 0x30, 0x32, 0x34, 0xB144, 0x20, 0x31, 0xC6D4, 0x20, 0x31, 0xC77C, 0x20, 0xC624, 0xC804, 0x20, 0x39, 0x3A, 0x30, 0x30] =
     Inr \<lparr>messages = [DateSeparator [0x32, 0x30, 0x32, 0x34, 0xB144, 0x20, 0x31, 0xC6D4, 0x20, 0x31, 0xC77C, 0x20, 0xC624, 0xC804, 0x20, 0x39, 0x3A, 0x30, 0x30]], users = [], lastMessage = None,
          lastDate = Some [0x32, 0x30, 0x32, 0x34, 0xB144, 0x20, 0x31, 0xC6D4, 0x20, 0x31, 0xC77C, 0x20, 0xC6D4, 0xC694, 0xC77C]\<rparr> \<and>
   step1 \<lparr>messages = [DateSeparator [0x32, 0x30, 0x32, 0x34, 0xB144, 0x20, 0x31, 0xC6D4, 0x20, 0x31, 0xC77C, 0x20, 0xC624, 0xC804, 0x20, 0x39, 0x3A, 0x30, 0x30],
                       Message [0x41] [0x68, 0x65, 0x6C, 0x6C, 0x6F] [0xC624, 0xC804, 0x20, 0x39, 0x3A, 0x30, 0x30] (Some [0x32, 0x30, 0x32, 0x34, 0xB144, 0x20, 0x31, 0xC6D4, 0x20, 0x31, 0xC77C, 0x20, 0xC624, 0xC804, 0x20, 0x39, 0x3A, 0x30, 0x30]) False],
          users = [[0x41]], lastMessage = Some 1, lastDate = Some [0x32, 0x30, 0x32, 0x34, 0xB144, 0x20, 0x31, 0xC6D4, 0x20, 0x31, 0xC77C, 0x20, 0xC6D4, 0xC694, 0xC77C]\<rparr>
         [0x32, 0x30, 0x32, 0x34, 0xB144, 0x20, 0x31, 0xC6D4, 0x20, 0x31, 0xC77C, 0x20, 0xC624, 0xC804, 0x20, 0x39, 0x3A, 0x30, 0x30] =
     Inr \<lparr>messages = [DateSeparator [0x32, 0x30, 0x32, 0x34, 0xB144, 0x20, 0x31, 0xC6D4, 0x20, 0x31, 0xC77C, 0x20, 0xC624, 0xC804, 0x20, 0x39, 0x3A, 0x30, 0x30],
                       Message [0x41] [0x68, 0x65, 0x6C, 0x6C, 0x6F] [0xC624, 0xC804, 0x20, 0x39, 0x3A, 0x30, 0x30] (Some [0x32, 0x30, 0x32, 0x34, 0xB144, 0x20, 0x31, 0xC6D4, 0x20, 0x31, 0xC77C, 0x20, 0xC624, 0xC804, 0x20, 0x39, 0x3A, 0x30, 0x30]) False],
          users = [[0x41]], lastMessage = Some 1, lastDate = Some [0x32, 0x30, 0x32, 0x34, 0xB144, 0x20, 0x31, 0xC6D4, 0x20, 0x31, 0xC77C, 0x20, 0xC6D4, 0xC694, 0xC77C]\<rparr>"
proof -
  let ?l = "[0x32, 0x30, 0x32, 0x34, 0xB144, 0x20, 0x31, 0xC6D4, 0x20, 0x31, 0xC77C, 0x20, 0xC624, 0xC804, 0x20, 0x39, 0x3A, 0x30, 0x30]"
  let ?s = "\<lparr>messages = [DateSeparator [0x32, 0x30, 0x32, 0x34, 0xB144, 0x20, 0x31, 0xC6D4, 0x20, 0x31, 0xC77C, 0x20, 0xC624, 0xC804, 0x20, 0x39, 0x3A, 0x30, 0x30],
                       Message [0x41] [0x68, 0x65, 0x6C, 0x6C, 0x6F] [0xC624, 0xC804, 0x20, 0x39, 0x3A, 0x30, 0x30] (Some [0x32, 0x30, 0x32, 0x34, 0xB144, 0x20, 0x31, 0xC6D4, 0x20, 0x31, 0xC77C, 0x20, 0xC624, 0xC804, 0x20, 0x39, 0x3A, 0x30, 0x30]) False],
          users = [[0x41]], lastMessage = Some 1, lastDate = Some [0x32, 0x30, 0x32, 0x34, 0xB144, 0x20, 0x31, 0xC6D4, 0x20, 0x31, 0xC77C, 0x20, 0xC6D4, 0xC694, 0xC77C]\<rparr>"
  have h: "match ?l dateSeparatorRegex1 \<noteq> None" using example_header_line by blast
  have d: "formatDateWithDay (dateOf ?l) = [0x32, 0x30, 0x32, 0x34, 0xB144, 0x20, 0x31, 0xC6D4, 0x20, 0x31, 0xC77C, 0x20, 0xC6D4, 0xC694, 0xC77C]"
    using example_header_line by simp
  have 1: "Some (formatDateWithDay (dateOf ?l)) \<noteq> lastDate initial" by (simp add: initial_def)
  have 2: "Some (formatDateWithDay (dateOf ?l)) = lastDate ?s" unfolding d by simp
  from date_header_resets_tracker_when_emitted[OF h, of initial] 1
  have a: "step1 initial ?l = Inr (initial\<lparr>messages := messages initial @ [DateSeparator ?l],
                           lastDate := Some (formatDateWithDay (dateOf ?l)),
                           lastMessage := None\<rparr>)" by blast
  from date_header_resets_tracker_when_emitted[OF h, of ?s] 2
  have b: "step1 ?s ?l = Inr ?s" by blast
  show ?thesis using h a b unfolding d by (simp add: initial_def)
qed

text \<open>
  Claim C3, as stated, fails on any input with a message: the two results differ in more
  than the payload of the date markers, since the messages of the first variant carry the
  full timestamp (line 95) and those of the second do not.
\<close>

theorem variants_differ_in_full_timestamp:
  "parseChat1 [0x54, 0xA, 0x53, 0xA, 0xA, 0x32, 0x30, 0x32, 0x34, 0xB144, 0x20, 0x31, 0xC6D4, 0x20, 0x31, 0xC77C, 0x20, 0xC624, 0xC804, 0x20, 0x39, 0x3A, 0x30, 0x30, 0x2C, 0x20, 0x41, 0x20, 0x3A, 0x20, 0x68, 0x65, 0x6C, 0x6C, 0x6F] =
     Inr \<lparr>messages = [DateSeparator [0x32, 0x30, 0x32, 0x34, 0xB144, 0x20, 0x31, 0xC6D4, 0x20, 0x31, 0xC77C, 0x20, 0xC624, 0xC804, 0x20, 0x39, 0x3A, 0x30, 0x30],
                        Message [0x41] [0x68, 0x65, 0x6C, 0x6C, 0x6F] [0xC624, 0xC804, 0x20, 0x39, 0x3A, 0x30, 0x30] (Some [0x32, 0x30, 0x32, 0x34, 0xB144, 0x20, 0x31, 0xC6D4, 0x20, 0x31, 0xC77C, 0x20, 0xC624, 0xC804, 0x20, 0x39, 0x3A, 0x30, 0x30]) False],
          users = [[0x41]], title = [0x54]\<rparr> \<and>
   parseChat2 [0x54, 0xA, 0x53, 0xA, 0xA, 0x32, 0x30, 0x32, 0x34, 0xB144, 0x20, 0x31, 0xC6D4, 0x20, 0x31, 0xC77C, 0x20, 0xC624, 0xC804, 0x20, 0x39, 0x3A, 0x30, 0x30, 0x2C, 0x20, 0x41, 0x20, 0x3A, 0x20, 0x68, 0x65, 0x6C, 0x6C, 0x6F] =
     Inr \<lparr>messages = [DateSeparator [0x32, 0x30, 0x32, 0x34, 0xB144, 0x20, 0x31, 0xC6D4, 0x20, 0x31, 0xC77C, 0x20, 0xC6D4, 0xC694, 0xC77C],
                        Message [0x41] [0x68, 0x65, 0x6C, 0x6C, 0x6F] [0xC624, 0xC804, 0x20, 0x39, 0x3A, 0x30, 0x30] None False],
          users = [[0x41]], title = [0x54]\<rparr> \<and>
   \<not> list_all2 sameButDatePayload
       [DateSeparator [0x32, 0x30, 0x32, 0x34, 0xB144, 0x20, 0x31, 0xC6D4, 0x20, 0x31, 0xC77C, 0x20, 0xC624, 0xC804, 0x20, 0x39, 0x3A, 0x30, 0x30],
        Message [0x41] [0x68, 0x65, 0x6C, 0x6C, 0x6F] [0xC624, 0xC804, 0x20, 0x39, 0x3A, 0x30, 0x30] (Some [0x32, 0x30, 0x32, 0x34, 0xB144, 0x20, 0x31, 0xC6D4, 0x20, 0x31, 0xC77C, 0x20, 0xC624, 0xC804, 0x20, 0x39, 0x3A, 0x30, 0x30]) False]
       [DateSeparator [0x32, 0x30, 0x32, 0x34, 0xB144, 0x20, 0x31, 0xC6D4, 0x20, 0x31, 0xC77C, 0x20, 0xC6D4, 0xC694, 0xC77C],
        Message [0x41] [0x68, 0x65, 0x6C, 0x6C, 0x6F] [0xC624, 0xC804, 0x20, 0x39, 0x3A, 0x30, 0x30] None False]"
  by (simp add: parseDefs sameButDatePayload_def)

text \<open>
  Claim C3, amended. For every input both variants return, and the result of the second
  is the result of the first with every date marker's payload (the raw timestamp text)
  replaced by the weekday-annotated date of its date text, and every message's full
  timestamp dropped: the lists have equal length and the same kind of item at each
  position, messages agree in speaker, body, display timestamp and continuation flag,
  system notices in their content, and the speakers and the title are the same.
\<close>

theorem variants_agree_but_date_payload_and_full_timestamp:
  "\<exists>r1 r2. parseChat1 src = Inr r1 \<and> parseChat2 src = Inr r2 \<and>
      messages r2 = map secondForm (messages r1) \<and>
      length (messages r1) = length (messages r2) \<and>
      list_all2 agree (messages r1) (messages r2) \<and>
      users r1 = users r2 \<and> title r1 = title r2"
proof -
  have c: "conv initial = initial" by (simp add: conv_def initial_def)
  have "foldl (nextState Second) initial ls = conv (foldl (nextState First) initial ls)" for ls
    using fold_conv[of initial ls] c by simp
  then show ?thesis
    unfolding parseChat1_eq parseChat2_eq by (simp add: conv_def list_all2_agree)
qed

theorem variants_agree_but_date_payload_and_full_timestamp_witness:
  "list_all2 agree
       [DateSeparator [0x32, 0x30, 0x32, 0x34, 0xB144, 0x20, 0x31, 0xC6D4, 0x20, 0x31, 0xC77C, 0x20, 0xC624, 0xC804, 0x20, 0x39, 0x3A, 0x30, 0x30],
        Message [0x41] [0x68, 0x65, 0x6C, 0x6C, 0x6F] [0xC624, 0xC804, 0x20, 0x39, 0x3A, 0x30, 0x30] (Some [0x32, 0x30, 0x32, 0x34, 0xB144, 0x20, 0x31, 0xC6D4, 0x20, 0x31, 0xC77C, 0x20, 0xC624, 0xC804, 0x20, 0x39, 0x3A, 0x30, 0x30]) False]
       [DateSeparator [0x32, 0x30, 0x32, 0x34, 0xB144, 0x20, 0x31, 0xC6D4, 0x20, 0x31, 0xC77C, 0x20, 0xC6D4, 0xC694, 0xC77C],
        Message [0x41] [0x68, 0x65, 0x6C, 0x6C, 0x6F] [0xC624, 0xC804, 0x20, 0x39, 0x3A, 0x30, 0x30] None False]"
proof -
  from variants_agree_but_date_payload_and_full_timestamp
         [of "[0x54, 0xA, 0x53, 0xA, 0xA, 0x32, 0x30, 0x32, 0x34, 0xB144, 0x20, 0x31, 0xC6D4, 0x20, 0x31, 0xC77C, 0x20, 0xC624, 0xC804, 0x20, 0x39, 0x3A, 0x30, 0x30, 0x2C, 0x20, 0x41, 0x20, 0x3A, 0x20, 0x68, 0x65, 0x6C, 0x6C, 0x6F]"]
  obtain r1 r2 where r: "parseChat1 [0x54, 0xA, 0x53, 0xA, 0xA, 0x32, 0x30, 0x32, 0x34, 0xB144, 0x20, 0x31, 0xC6D4, 0x20, 0x31, 0xC77C, 0x20, 0xC624, 0xC804, 0x20, 0x39, 0x3A, 0x30, 0x30, 0x2C, 0x20, 0x41, 0x20, 0x3A, 0x20, 0x68, 0x65, 0x6C, 0x6C, 0x6F] = Inr r1"
    "parseChat2 [0x54, 0xA, 0x53, 0xA, 0xA, 0x32, 0x30, 0x32, 0x34, 0xB144, 0x20, 0x31, 0xC6D4, 0x20, 0x31, 0xC77C, 0x20, 0xC624, 0xC804, 0x20, 0x39, 0x3A, 0x30, 0x30, 0x2C, 0x20, 0x41, 0x20, 0x3A, 0x20, 0x68, 0x65, 0x6C, 0x6C, 0x6F] = Inr r2"
    "list_all2 agree (messages r1) (messages r2)" by blast
  have 1: "parseChat1 [0x54, 0xA, 0x53, 0xA, 0xA, 0x32, 0x30, 0x32, 0x34, 0xB144, 0x20, 0x31, 0xC6D4, 0x20, 0x31, 0xC77C, 0x20, 0xC624, 0xC804, 0x20, 0x39, 0x3A, 0x30, 0x30, 0x2C, 0x20, 0x41, 0x20, 0x3A, 0x20, 0x68, 0x65, 0x6C, 0x6C, 0x6F] =
     Inr \<lparr>messages = [DateSeparator [0x32, 0x30, 0x32, 0x34, 0xB144, 0x20, 0x31, 0xC6D4, 0x20, 0x31, 0xC77C, 0x20, 0xC624, 0xC804, 0x20, 0x39, 0x3A, 0x30, 0x30],
                        Message [0x41] [0x68, 0x65, 0x6C, 0x6C, 0x6F] [0xC624, 0xC804, 0x20, 0x39, 0x3A, 0x30, 0x30] (Some [0x32, 0x30, 0x32, 0x34, 0xB144, 0x20, 0x31, 0xC6D4, 0x20, 0x31, 0xC77C, 0x20, 0xC624, 0xC804, 0x20, 0x39, 0x3A, 0x30, 0x30]) False],
          users = [[0x41]], title = [0x54]\<rparr>"
    by (simp add: parseDefs)
  have 2: "parseChat2 [0x54, 0xA, 0x53, 0xA, 0xA, 0x32, 0x30, 0x32, 0x34, 0xB144, 0x20, 0x31, 0xC6D4, 0x20, 0x31, 0xC77C, 0x20, 0xC624, 0xC804, 0x20, 0x39, 0x3A, 0x30, 0x30, 0x2C, 0x20, 0x41, 0x20, 0x3A, 0x20, 0x68, 0x65, 0x6C, 0x6C, 0x6F] =
     Inr \<lparr>messages = [DateSeparator [0x32, 0x30, 0x32, 0x34, 0xB144, 0x20, 0x31, 0xC6D4, 0x20, 0x31, 0xC77C, 0x20, 0xC6D4, 0xC694, 0xC77C],
                        Message [0x41] [0x68, 0x65, 0x6C, 0x6C, 0x6F] [0xC624, 0xC804, 0x20, 0x39, 0x3A, 0x30, 0x30] None False],
          users = [[0x41]], title = [0x54]\<rparr>"
    by (simp add: parseDefs)
  from r(1) 1 have "messages r1 = [DateSeparator [0x32, 0x30, 0x32, 0x34, 0xB144, 0x20, 0x31, 0xC6D4, 0x20, 0x31, 0xC77C, 0x20, 0xC624, 0xC804, 0x20, 0x39, 0x3A, 0x30, 0x30],
                        Message [0x41] [0x68, 0x65, 0x6C, 0x6C, 0x6F] [0xC624, 0xC804, 0x20, 0x39, 0x3A, 0x30, 0x30] (Some [0x32, 0x30, 0x32, 0x34, 0xB144, 0x20, 0x31, 0xC6D4, 0x20, 0x31, 0xC77C, 0x20, 0xC624, 0xC804, 0x20, 0x39, 0x3A, 0x30, 0x30]) False]" by auto
  moreover from r(2) 2 have "messages r2 = [DateSeparator [0x32, 0x30, 0x32, 0x34, 0xB144, 0x20, 0x31, 0xC6D4, 0x20, 0x31, 0xC77C, 0x20, 0xC6D4, 0xC694, 0xC77C],
                        Message [0x41] [0x68, 0x65, 0x6C, 0x6C, 0x6F] [0xC624, 0xC804, 0x20, 0x39, 0x3A, 0x30, 0x30] None False]" by auto
  ultimately show ?thesis using r(3) by simp
qed

text \<open>
  Claim C4, as stated, fails when one calendar date is written in two ways. The headers
  of 1 January 2024 with the month and day unpadded and zero-padded (both match the
  pattern) give two date markers in a row, and the numbers that \<open>formatDateWithDay\<close> reads
  from them are the same year 2024, month 1, day 1: the test of line 53 compares the
  formatted strings, not the dates.
\<close>

theorem padded_date_repeats_marker:
  "parseChat1 [0x54, 0xA, 0x53, 0xA, 0xA, 0x32, 0x30, 0x32, 0x34, 0xB144, 0x20, 0x31, 0xC6D4, 0x20, 0x31, 0xC77C, 0x20, 0xC624, 0xC804, 0x20, 0x39, 0x3A, 0x30, 0x30, 0xA, 0x32, 0x30, 0x32, 0x34, 0xB144, 0x20, 0x30, 0x31, 0xC6D4, 0x20, 0x30, 0x31, 0xC77C, 0x20, 0xC624, 0xC804, 0x20, 0x39, 0x3A, 0x30, 0x30] =
     Inr \<lparr>messages = [DateSeparator [0x32, 0x30, 0x32, 0x34, 0xB144, 0x20, 0x31, 0xC6D4, 0x20, 0x31, 0xC77C, 0x20, 0xC624, 0xC804, 0x20, 0x39, 0x3A, 0x30, 0x30],
                        DateSeparator [0x32, 0x30, 0x32, 0x34, 0xB144, 0x20, 0x30, 0x31, 0xC6D4, 0x20, 0x30, 0x31, 0xC77C, 0x20, 0xC624, 0xC804, 0x20, 0x39, 0x3A, 0x30, 0x30]],
          users = [], title = [0x54]\<rparr> \<and>
   parseChat2 [0x54, 0xA, 0x53, 0xA, 0xA, 0x32, 0x30, 0x32, 0x34, 0xB144, 0x20, 0x31, 0xC6D4, 0x20, 0x31, 0xC77C, 0x20, 0xC624, 0xC804, 0x20, 0x39, 0x3A, 0x30, 0x30, 0xA, 0x32, 0x30, 0x32, 0x34, 0xB144, 0x20, 0x30, 0x31, 0xC6D4, 0x20, 0x30, 0x31, 0xC77C, 0x20, 0xC624, 0xC804, 0x20, 0x39, 0x3A, 0x30, 0x30] =
     Inr \<lparr>messages = [DateSeparator [0x32, 0x30, 0x32, 0x34, 0xB144, 0x20, 0x31, 0xC6D4, 0x20, 0x31, 0xC77C, 0x20, 0xC6D4, 0xC694, 0xC77C],
                        DateSeparator [0x32, 0x30, 0x32, 0x34, 0xB144, 0x20, 0x30, 0x31, 0xC6D4, 0x20, 0x30, 0x31, 0xC77C, 0x20, 0xC6D4, 0xC694, 0xC77C]],
          users = [], title = [0x54]\<rparr> \<and>
   dateNumbers [0x32, 0x30, 0x32, 0x34, 0xB144, 0x20, 0x31, 0xC6D4, 0x20, 0x31, 0xC77C, 0x20, 0xC624, 0xC804, 0x20, 0x39, 0x3A, 0x30, 0x30] = Some (Some 2024, Some 1, Some 1) \<and>
   dateNumbers [0x32, 0x30, 0x32, 0x34, 0xB144, 0x20, 0x30, 0x31, 0xC6D4, 0x20, 0x30, 0x31, 0xC77C, 0x20, 0xC624, 0xC804, 0x20, 0x39, 0x3A, 0x30, 0x30] = Some (Some 2024, Some 1, Some 1)"
  by (simp add: parseDefs dateNumbers_def)

text \<open>
  Claim C4, amended. Any two date markers that are adjacent in the subsequence of date
  markers of the result differ in their date text (the \<open>YYYY M D\<close> text of the line that
  made the marker, as it is written); and of two consecutive date header lines with the
  same date text the second emits nothing, so that together they emit one marker, or none
  when that date is already the tracked one. In both variants.
\<close>

theorem adjacent_date_markers_differ_in_text:
  "(\<exists>r. parseChat1 src = Inr r \<and> distinct_adj (map dateOf (dateMarkers (messages r)))) \<and>
   (\<exists>r. parseChat2 src = Inr r \<and> distinct_adj (map dateOf (dateMarkers (messages r)))) \<and>
   (match l1 dateSeparatorRegex1 \<noteq> None \<and> match l2 dateSeparatorRegex1 \<noteq> None \<and>
    dateOf l1 = dateOf l2 \<longrightarrow>
      (\<exists>t. run1 s [l1, l2] = Inr t \<and> run1 s [l1] = Inr t \<and>
           messages t = messages s @
             (if lastDate s = Some (formatDateWithDay (dateOf l1)) then []
              else [DateSeparator l1])) \<and>
      (\<exists>t. run2 s [l1, l2] = Inr t \<and> run2 s [l1] = Inr t \<and>
           messages t = messages s @
             (if lastDate s = Some (formatDateWithDay (dateOf l1)) then []
              else [DateSeparator (formatDateWithDay (dateOf l1))])))"
proof (intro conjI impI)
  have i: "datesTracked initial" by (simp add: datesTracked_def initial_def dateMarkers_def)
  show "\<exists>r. parseChat1 src = Inr r \<and> distinct_adj (map dateOf (dateMarkers (messages r)))"
    unfolding parseChat1_eq using fold_tracked[OF i] by (simp add: datesTracked_def)
  show "\<exists>r. parseChat2 src = Inr r \<and> distinct_adj (map dateOf (dateMarkers (messages r)))"
    unfolding parseChat2_eq using fold_tracked[OF i] by (simp add: datesTracked_def)
next
  assume h: "match l1 dateSeparatorRegex1 \<noteq> None \<and> match l2 dateSeparatorRegex1 \<noteq> None \<and>
    dateOf l1 = dateOf l2"
  have 1: "nextState v s l1 = headerLine v s l1" for v
    using h nextState_header by blast
  have 2: "nextState v (headerLine v s l1) l2 = headerLine v s l1" for v
    using h nextState_header[of l2 v "headerLine v s l1"] by (simp add: headerLine_def)
  have 3: "messages (headerLine v s l1) = messages s @
             (if lastDate s = Some (formatDateWithDay (dateOf l1)) then []
              else [DateSeparator (datePayload v l1)])" for v
    by (auto simp: headerLine_def)
  show "\<exists>t. run1 s [l1, l2] = Inr t \<and> run1 s [l1] = Inr t \<and>
           messages t = messages s @
             (if lastDate s = Some (formatDateWithDay (dateOf l1)) then []
              else [DateSeparator l1])"
    using 3[of First] by (simp add: run1_fold 1 2 datePayload_def)
  show "\<exists>t. run2 s [l1, l2] = Inr t \<and> run2 s [l1] = Inr t \<and>
           messages t = messages s @
             (if lastDate s = Some (formatDateWithDay (dateOf l1)) then []
              else [DateSeparator (formatDateWithDay (dateOf l1))])"
    using 3[of Second] by (simp add: run2_fold 1 2 datePayload_def)
qed

theorem adjacent_date_markers_differ_in_text_witness:
  "match [0x32, 0x30, 0x32, 0x34, 0xB144, 0x20, 0x31, 0xC6D4, 0x20, 0x31, 0xC77C, 0x20, 0xC624, 0xC804, 0x20, 0x39, 0x3A, 0x30, 0x30] dateSeparatorRegex1 \<noteq> None \<and>
   (\<exists>t. run1 initial [[0x32, 0x30, 0x32, 0x34, 0xB144, 0x20, 0x31, 0xC6D4, 0x20, 0x31, 0xC77C, 0x20, 0xC624, 0xC804, 0x20, 0x39, 0x3A, 0x30, 0x30],
                      [0x32, 0x30, 0x32, 0x34, 0xB144, 0x20, 0x31, 0xC6D4, 0x20, 0x31, 0xC77C, 0x20, 0xC624, 0xC804, 0x20, 0x39, 0x3A, 0x30, 0x30]] = Inr t \<and>
        messages t = [DateSeparator [0x32, 0x30, 0x32, 0x34, 0xB144, 0x20, 0x31, 0xC6D4, 0x20, 0x31, 0xC77C, 0x20, 0xC624, 0xC804, 0x20, 0x39, 0x3A, 0x30, 0x30]]) \<and>
   (\<exists>t. run2 initial [[0x32, 0x30, 0x32, 0x34, 0xB144, 0x20, 0x31, 0xC6D4, 0x20, 0x31, 0xC77C, 0x20, 0xC624, 0xC804, 0x20, 0x39, 0x3A, 0x30, 0x30],
                      [0x32, 0x30, 0x32, 0x34, 0xB144, 0x20, 0x31, 0xC6D4, 0x20, 0x31, 0xC77C, 0x20, 0xC624, 0xC804, 0x20, 0x39, 0x3A, 0x30, 0x30]] = Inr t \<and>
        messages t = [DateSeparator [0x32, 0x30, 0x32, 0x34, 0xB144, 0x20, 0x31, 0xC6D4, 0x20, 0x31, 0xC77C, 0x20, 0xC6D4, 0xC694, 0xC77C]])"
proof -
  let ?l = "[0x32, 0x30, 0x32, 0x34, 0xB144, 0x20, 0x31, 0xC6D4, 0x20, 0x31, 0xC77C, 0x20, 0xC624, 0xC804, 0x20, 0x39, 0x3A, 0x30, 0x30]"
  have h: "match ?l dateSeparatorRegex1 \<noteq> None" using example_header_line by blast
  have d: "formatDateWithDay (dateOf ?l) = [0x32, 0x30, 0x32, 0x34, 0xB144, 0x20, 0x31, 0xC6D4, 0x20, 0x31, 0xC77C, 0x20, 0xC6D4, 0xC694, 0xC77C]"
    using example_header_line by simp
  have n: "lastDate initial \<noteq> Some (formatDateWithDay (dateOf ?l))" by (simp add: initial_def)
  from adjacent_date_markers_differ_in_text[where ?l1.0 = ?l and ?l2.0 = ?l and s = initial] h
  have "(\<exists>t. run1 initial [?l, ?l] = Inr t \<and> run1 initial [?l] = Inr t \<and>
           messages t = messages initial @
             (if lastDate initial = Some (formatDateWithDay (dateOf ?l)) then []
              else [DateSeparator ?l])) \<and>
      (\<exists>t. run2 initial [?l, ?l] = Inr t \<and> run2 initial [?l] = Inr t \<and>
           messages t = messages initial @
             (if lastDate initial = Some (formatDateWithDay (dateOf ?l)) then []
              else [DateSeparator (formatDateWithDay (dateOf ?l))]))"
    by blast
  then show ?thesis using h n unfolding d by (auto simp: initial_def)
qed

end
